theory Spec2Isabelle
  imports Main "HOL-Library.Char_ord" "HOL-Library.List_Lexorder"
begin

section \<open>Data model of microsynteny.py\<close>

text \<open>
  The two namedtuples of the script. Coordinates are Python ints, gene and scaffold
  names are Python strings. The field called end in the source is named qend / rend
  here, the others carry the same prefix.
\<close>

record querygene =
  qstart :: int
  qend :: int
  qstrand :: string

record refgene =
  rscaffold :: string
  rstart :: int
  rend :: int
  rstrand :: string

text \<open>
  The exceptions the modelled code can raise. KeyError carries the missing key,
  SysExit the message given to sys.exit.
\<close>

datatype error =
    KeyError string
  | ValueError
  | TypeError
  | AttributeError
  | NameError
  | SysExit string

text \<open>
  A Python dict keeps its keys in insertion order, and the script iterates over
  items(), so a dict whose order matters is an association list with distinct keys.
  Assigning to an existing key keeps its position, a new key goes to the end.
\<close>

fun dict_set :: "'k \<Rightarrow> 'v \<Rightarrow> ('k \<times> 'v) list \<Rightarrow> ('k \<times> 'v) list" where
  "dict_set k v [] = [(k, v)]"
| "dict_set k v ((k', v') # d) = (if k' = k then (k, v) # d else (k', v') # dict_set k v d)"

text \<open>
  sorted(items, key=f) is a stable ascending sort, which is what sort_key is.
  sorted(items, key=f, reverse=True) is stable too: equal keys keep their original
  relative order. CPython reverses the list, sorts it stably and reverses the result.
\<close>

definition sorted_desc :: "('a \<Rightarrow> 'k::linorder) \<Rightarrow> 'a list \<Rightarrow> 'a list" where
  "sorted_desc f xs = rev (sort_key f (rev xs))"

text \<open>enumerate(xs)\<close>

definition enumerate_list :: "'a list \<Rightarrow> (nat \<times> 'a) list" where
  "enumerate_list xs = zip [0..<length xs] xs"

section \<open>synteny\_walk\<close>

text \<open>
  What the walk writes. A block written to wayout is kept as the values the two
  output formats are rendered from (the format strings themselves are not modelled):
  query scaffold, reference scaffold, block number, the pairs of syntenylist, the
  block bounds after the strand swap, and the strand.
\<close>

record block =
  b_scaffold :: string
  b_refscaffold :: string
  b_blocknum :: nat
  b_pairs :: "(string \<times> string) list"
  b_qblockstart :: int
  b_qblockend :: int
  b_sblockstart :: int
  b_sblockend :: int
  b_strand :: string

text \<open>
  The messages of the walk on stderr, one constructor per sys.stderr.write inside the
  loops, with the values that are formatted into it.
\<close>

datatype event =
    Scanning string nat
  | SkipScaffold string nat
  | NoBlast string
  | AlreadyMatched string string
  | StartWalk string string string
  | NextTooFar int string
  | NoBlastNext string
  | MatchTooFar string string int
  | MatchFound string string string
  | WrongContig string string string
  | LimitReached string string
  | FoundBlock nat string string
  | NewLongest nat nat string
  | BlockIgnored nat
  | TooFew string string

text \<open>
  The local variables of synteny\_walk that are assigned inside the loops, as one
  record. walksteps and querypos are assigned once per anchor gene (lines 209 and 213),
  before the loop over the anchor's blast hits, so they carry over from one hit of
  an anchor to its next hit. blocklengths and scaffoldgenecounts are the two
  defaultdict(int) counters.
\<close>

record ws =
  syntenylist :: "(string \<times> string) list"
  walksteps :: int
  querypos :: "int \<times> int"
  subjectpos :: "int \<times> int"
  refscaffold :: string
  accounted_query_genes :: "string list"
  lastmatch :: string
  splitgenes :: nat
  blocknum :: nat
  blocklengths :: "(nat \<times> nat) list"
  scaffoldgenecounts :: "(nat \<times> nat) list"
  basetotal :: int
  wayout :: "block list"
  stderr_log :: "event list"

text \<open>The parameters of synteny\_walk that are plain values.\<close>

record config =
  min_block :: int
  max_span :: int
  max_distance :: int
  is_verbose :: bool

type_synonym 'a result = "(error \<times> ws) + 'a"

definition write_err :: "event \<Rightarrow> ws \<Rightarrow> ws" where
  "write_err e st = st\<lparr>stderr_log := stderr_log st @ [e]\<rparr>"

definition verbose :: "config \<Rightarrow> event \<Rightarrow> ws \<Rightarrow> ws" where
  "verbose cfg e st = (if is_verbose cfg then write_err e st else st)"

text \<open>d[k] += 1 on a defaultdict(int)\<close>

definition count_incr :: "nat \<Rightarrow> (nat \<times> nat) list \<Rightarrow> (nat \<times> nat) list" where
  "count_incr k d = dict_set k (case map_of d k of None \<Rightarrow> 1 | Some c \<Rightarrow> c + 1) d"

text \<open>
  Lines 258 to 286: the loop over the blast hits of the next gene, in descending
  score order. The result says whether the loop was left by break (a hit was accepted);
  if not, the else branch of the for statement runs in the caller.
  The comparison of line 259 is with blast\_refgene, the hit of the anchor gene.
\<close>

fun scan_matches ::
  "config \<Rightarrow> (string \<rightharpoonup> refgene) \<Rightarrow> string \<Rightarrow> string \<Rightarrow> string \<Rightarrow>
   (string \<times> 's) list \<Rightarrow> ws \<Rightarrow> (bool \<times> ws) result" where
  "scan_matches cfg refdict scaffold blast_refgene next_gene [] st = Inr (False, st)"
| "scan_matches cfg refdict scaffold blast_refgene next_gene ((next_match, bitscoreN) # rest) st =
     (if next_match = blast_refgene then
        scan_matches cfg refdict scaffold blast_refgene next_gene rest
          (st\<lparr>accounted_query_genes := accounted_query_genes st @ [next_gene]\<rparr>)
      else
        (case refdict next_match of
           None \<Rightarrow> Inl (KeyError next_match, st)
         | Some r \<Rightarrow>
            (if rscaffold r = refscaffold st then
               (let dist_to_next_ref = rstart r - snd (subjectpos st);
                    dist_to_prev_ref = fst (subjectpos st) - rend r
                in if dist_to_next_ref > max_distance cfg \<or> dist_to_prev_ref > max_distance cfg then
                     scan_matches cfg refdict scaffold blast_refgene next_gene rest
                       (verbose cfg (MatchTooFar next_gene next_match
                          (max dist_to_next_ref dist_to_prev_ref)) st)
                   else
                     Inr (True,
                       (verbose cfg (MatchFound next_match next_gene scaffold) st)
                         \<lparr>walksteps := max_span cfg,
                          subjectpos := (rstart r, rend r),
                          accounted_query_genes := accounted_query_genes st @ [next_gene],
                          syntenylist := syntenylist st @ [(next_gene, next_match)]\<rparr>))
             else
               scan_matches cfg refdict scaffold blast_refgene next_gene rest
                 (verbose cfg (WrongContig next_gene next_match (rscaffold r)) st))))"

text \<open>
  Lines 241 to 290: the walk over orderedtranslist[i+1:], the genes after the anchor.
\<close>

fun walk_genes ::
  "config \<Rightarrow> (string \<rightharpoonup> (string \<times> 's::linorder) list) \<Rightarrow> (string \<rightharpoonup> refgene) \<Rightarrow>
   string \<Rightarrow> string \<Rightarrow> string \<Rightarrow> (string \<times> querygene) list \<Rightarrow> ws \<Rightarrow> ws result" where
  "walk_genes cfg blastdict refdict scaffold startingtrans blast_refgene [] st = Inr st"
| "walk_genes cfg blastdict refdict scaffold startingtrans blast_refgene
     ((next_gene, next_gene_info) # rest) st =
     (if walksteps st > 0 then
        (let dist_to_next_query = qstart next_gene_info - snd (querypos st)
         in if dist_to_next_query > max_distance cfg then
              Inr (verbose cfg (NextTooFar dist_to_next_query next_gene) st)
            else
              (let st1 = st\<lparr>querypos := (qstart next_gene_info, qend next_gene_info)\<rparr>
               in case blastdict next_gene of
                    None \<Rightarrow>
                      walk_genes cfg blastdict refdict scaffold startingtrans blast_refgene rest
                        ((verbose cfg (NoBlastNext next_gene) st1)
                           \<lparr>walksteps := walksteps st1 - 1\<rparr>)
                  | Some next_match_dict \<Rightarrow>
                      (case scan_matches cfg refdict scaffold blast_refgene next_gene
                              (sorted_desc snd next_match_dict) st1 of
                         Inl e \<Rightarrow> Inl e
                       | Inr (True, st2) \<Rightarrow>
                           walk_genes cfg blastdict refdict scaffold startingtrans blast_refgene
                             rest st2
                       | Inr (False, st2) \<Rightarrow>
                           walk_genes cfg blastdict refdict scaffold startingtrans blast_refgene
                             rest (st2\<lparr>walksteps := walksteps st2 - 1\<rparr>))))
      else Inr (verbose cfg (LimitReached next_gene startingtrans) st))"

text \<open>
  Lines 291 to 331: a chain of at least min\_block pairs is written as a block.
  max(blocklengths.keys()) raises ValueError on the empty dict, which the source
  catches; both ways write the same message. The four subscripts of lines 301 to
  304 are evaluated in this order, each one a KeyError when the key is missing.
\<close>

definition subscript :: "('k \<times> 'v) list \<Rightarrow> 'k \<Rightarrow> 'v option" where
  "subscript d k = map_of d k"

text \<open>Lines 294 to 300: the two messages for a chain that is long enough.\<close>

definition block_messages :: "config \<Rightarrow> string \<Rightarrow> string \<Rightarrow> ws \<Rightarrow> ws" where
  "block_messages cfg scaffold startingtrans st =
     (let blocklen = length (syntenylist st);
          st1 = verbose cfg (FoundBlock blocklen startingtrans scaffold) st
      in if blocklengths st1 = [] \<or> blocklen > Max (set (map fst (blocklengths st1)))
         then write_err (NewLongest (blocknum st1) blocklen scaffold) st1
         else st1)"

definition write_longest_match ::
  "config \<Rightarrow> (string \<rightharpoonup> refgene) \<Rightarrow> string \<Rightarrow> (string \<times> querygene) list \<Rightarrow> string \<Rightarrow>
   ws \<Rightarrow> ws result" where
  "write_longest_match cfg refdict scaffold transdict startingtrans st =
     (let blocklen = length (syntenylist st)
      in if int blocklen \<ge> min_block cfg then
           (let st2 = block_messages cfg scaffold startingtrans st
            in case subscript transdict (fst (hd (syntenylist st2))) of
                 None \<Rightarrow> Inl (KeyError (fst (hd (syntenylist st2))), st2)
               | Some q0 \<Rightarrow>
              (case subscript transdict (fst (last (syntenylist st2))) of
                 None \<Rightarrow> Inl (KeyError (fst (last (syntenylist st2))), st2)
               | Some q1 \<Rightarrow>
              (case refdict (snd (hd (syntenylist st2))) of
                 None \<Rightarrow> Inl (KeyError (snd (hd (syntenylist st2))), st2)
               | Some r0 \<Rightarrow>
              (case refdict (snd (last (syntenylist st2))) of
                 None \<Rightarrow> Inl (KeyError (snd (last (syntenylist st2))), st2)
               | Some r1 \<Rightarrow>
                   (let qblockstart = qstart q0;
                        qblockend = qend q1;
                        sblockstart = rstart r0;
                        sblockend = rend r1;
                        blk = \<lparr>b_scaffold = scaffold,
                               b_refscaffold = refscaffold st2,
                               b_blocknum = blocknum st2,
                               b_pairs = syntenylist st2,
                               b_qblockstart = qblockstart,
                               b_qblockend = qblockend,
                               b_sblockstart = (if sblockend > sblockstart then sblockstart else sblockend),
                               b_sblockend = (if sblockend > sblockstart then sblockend else sblockstart),
                               b_strand = (if sblockend > sblockstart then ''+'' else ''-'')\<rparr>
                    in Inr (st2\<lparr>basetotal := basetotal st2 + (qblockend - qblockstart),
                                blocklengths := count_incr blocklen (blocklengths st2),
                                wayout := wayout st2 @ [blk],
                                blocknum := blocknum st2 + 1\<rparr>))))))
         else Inr (verbose cfg (BlockIgnored blocklen) st))"

text \<open>
  Lines 221 to 335: the loop over the blast hits of the anchor gene, in descending
  score order. There is no break in this loop: every hit is visited. The test of
  line 226 skips a hit (without assigning lastmatch) when the anchor is in
  accounted\_query\_genes.
\<close>

fun try_hits ::
  "config \<Rightarrow> (string \<rightharpoonup> (string \<times> 's::linorder) list) \<Rightarrow> (string \<rightharpoonup> refgene) \<Rightarrow>
   string \<Rightarrow> (string \<times> querygene) list \<Rightarrow> (string \<times> querygene) list \<Rightarrow> nat \<Rightarrow> string \<Rightarrow>
   (string \<times> 's) list \<Rightarrow> ws \<Rightarrow> ws result" where
  "try_hits cfg blastdict refdict scaffold transdict orderedtranslist i startingtrans [] st = Inr st"
| "try_hits cfg blastdict refdict scaffold transdict orderedtranslist i startingtrans
     ((blast_refgene, bitscore1) # rest) st =
     (let st1 = (if blast_refgene = lastmatch st then st\<lparr>splitgenes := splitgenes st + 1\<rparr> else st)
      in if startingtrans \<in> set (accounted_query_genes st1) then
           try_hits cfg blastdict refdict scaffold transdict orderedtranslist i startingtrans rest
             (verbose cfg (AlreadyMatched startingtrans scaffold) st1)
         else
           (let st2 = st1\<lparr>syntenylist := [(startingtrans, blast_refgene)]\<rparr>
            in if int i < int (length orderedtranslist) - 1 then
                 (let st3 = verbose cfg (StartWalk startingtrans scaffold blast_refgene) st2
                  in case refdict blast_refgene of
                       None \<Rightarrow> Inl (KeyError blast_refgene, st3)
                     | Some r \<Rightarrow>
                        (case walk_genes cfg blastdict refdict scaffold startingtrans blast_refgene
                                (drop (i + 1) orderedtranslist)
                                (st3\<lparr>refscaffold := rscaffold r,
                                     subjectpos := (rstart r, rend r)\<rparr>) of
                           Inl e \<Rightarrow> Inl e
                         | Inr st4 \<Rightarrow>
                            (case write_longest_match cfg refdict scaffold transdict startingtrans st4 of
                               Inl e \<Rightarrow> Inl e
                             | Inr st5 \<Rightarrow>
                                 try_hits cfg blastdict refdict scaffold transdict orderedtranslist i
                                   startingtrans rest (st5\<lparr>lastmatch := blast_refgene\<rparr>))))
               else
                 try_hits cfg blastdict refdict scaffold transdict orderedtranslist i startingtrans rest
                   ((verbose cfg (TooFew startingtrans scaffold) st2)\<lparr>lastmatch := blast_refgene\<rparr>)))"

text \<open>Lines 208 to 335: the loop over enumerate(orderedtranslist), the anchor genes.\<close>

fun scan_anchors ::
  "config \<Rightarrow> (string \<rightharpoonup> (string \<times> 's::linorder) list) \<Rightarrow> (string \<rightharpoonup> refgene) \<Rightarrow>
   string \<Rightarrow> (string \<times> querygene) list \<Rightarrow> (string \<times> querygene) list \<Rightarrow>
   (nat \<times> string \<times> querygene) list \<Rightarrow> ws \<Rightarrow> ws result" where
  "scan_anchors cfg blastdict refdict scaffold transdict orderedtranslist [] st = Inr st"
| "scan_anchors cfg blastdict refdict scaffold transdict orderedtranslist
     ((i, querygene_tuple) # rest) st =
     (let startingtrans = fst querygene_tuple;
          st1 = st\<lparr>walksteps := max_span cfg,
                   querypos := (qstart (snd querygene_tuple), qend (snd querygene_tuple))\<rparr>
      in case blastdict startingtrans of
           None \<Rightarrow>
             scan_anchors cfg blastdict refdict scaffold transdict orderedtranslist rest
               (verbose cfg (NoBlast startingtrans) st1)
         | Some blastrefmatch_dict \<Rightarrow>
            (case try_hits cfg blastdict refdict scaffold transdict orderedtranslist i startingtrans
                    (sorted_desc snd blastrefmatch_dict) st1 of
               Inl e \<Rightarrow> Inl e
             | Inr st2 \<Rightarrow>
                 scan_anchors cfg blastdict refdict scaffold transdict orderedtranslist rest st2))"

text \<open>
  Lines 197 to 335: the loop over the scaffolds, already sorted by name. The list
  accounted\_query\_genes is emptied for each scaffold that is walked.
\<close>

fun walk_scaffolds ::
  "config \<Rightarrow> (string \<rightharpoonup> (string \<times> 's::linorder) list) \<Rightarrow> (string \<rightharpoonup> refgene) \<Rightarrow>
   (string \<times> (string \<times> querygene) list) list \<Rightarrow> ws \<Rightarrow> ws result" where
  "walk_scaffolds cfg blastdict refdict [] st = Inr st"
| "walk_scaffolds cfg blastdict refdict ((scaffold, transdict) # rest) st =
     (let orderedtranslist = sort_key (\<lambda>x. qstart (snd x)) transdict;
          genesonscaff = length orderedtranslist;
          st1 = verbose cfg (Scanning scaffold genesonscaff)
                  (st\<lparr>scaffoldgenecounts := count_incr genesonscaff (scaffoldgenecounts st)\<rparr>)
      in if int genesonscaff < min_block cfg then
           walk_scaffolds cfg blastdict refdict rest
             (verbose cfg (SkipScaffold scaffold genesonscaff) st1)
         else
           (case scan_anchors cfg blastdict refdict scaffold transdict orderedtranslist
                   (enumerate_list orderedtranslist) (st1\<lparr>accounted_query_genes := []\<rparr>) of
              Inl e \<Rightarrow> Inl e
            | Inr st2 \<Rightarrow> walk_scaffolds cfg blastdict refdict rest st2))"

text \<open>The values of the local variables at lines 184 to 194.\<close>

definition init_ws :: ws where
  "init_ws = \<lparr>syntenylist = [], walksteps = 0, querypos = (0, 1), subjectpos = (0, 1),
     refscaffold = [], accounted_query_genes = [], lastmatch = [], splitgenes = 0,
     blocknum = 1, blocklengths = [], scaffoldgenecounts = [], basetotal = 0,
     wayout = [], stderr_log = []\<rparr>"

definition no_synteny_message :: string where
  "no_synteny_message = ''### NO SYNTENY DETECTED, CHECK GENE ID FORMAT PARAMTERS -Q -D''"

text \<open>
  synteny\_walk. After the loops, line 337 takes the maximum of the keys of
  scaffoldgenecounts, which raises ValueError when querydict had no scaffold, and
  line 340 exits when blocklengths is empty. The summary lines written after that
  are not modelled; the values they print are in the final state.
\<close>

definition synteny_walk ::
  "(string \<times> (string \<times> querygene) list) list \<Rightarrow> (string \<rightharpoonup> (string \<times> 's::linorder) list) \<Rightarrow>
   (string \<rightharpoonup> refgene) \<Rightarrow> config \<Rightarrow> ws result" where
  "synteny_walk querydict blastdict refdict cfg =
     (case walk_scaffolds cfg blastdict refdict (sort_key fst querydict) init_ws of
        Inl e \<Rightarrow> Inl e
      | Inr st \<Rightarrow>
          if scaffoldgenecounts st = [] then Inl (ValueError, st)
          else if length (blocklengths st) = 0 then Inl (SysExit no_synteny_message, st)
          else Inr st)"

section \<open>parse\_tabular\_blast\<close>

text \<open>
  s.rsplit(sep, 1)[0]: the part of s before the last occurrence of sep, or s itself
  when sep does not occur. An empty separator raises ValueError. The last occurrence
  of sep in s is the first occurrence of the reversed sep in the reversed s.
\<close>

fun after_first :: "'a list \<Rightarrow> 'a list \<Rightarrow> 'a list option" where
  "after_first p [] = (if p = [] then Some [] else None)"
| "after_first p (c # cs) =
     (if take (length p) (c # cs) = p then Some (drop (length p) (c # cs))
      else after_first p cs)"

definition rsplit_head :: "string \<Rightarrow> string \<Rightarrow> error + string" where
  "rsplit_head sep s =
     (if sep = [] then Inl ValueError
      else case after_first (rev sep) (rev s) of None \<Rightarrow> Inr s | Some t \<Rightarrow> Inr (rev t))"

text \<open>
  One line of the tabular blast file, as the four columns the function reads:
  lsplits[0], lsplits[1], float(lsplits[10]) and float(lsplits[11]). The two floats
  are kept in any linearly ordered type (no NaN).
\<close>

record ('e, 's) blast_line =
  qseqid :: string
  sseqid :: string
  evalue :: 'e
  bitscore :: 's

text \<open>The three variables the loop of parse\_tabular\_blast assigns.\<close>

record 's blast_state =
  query_to_sub_dict :: "(string \<times> (string \<times> 's) list) list"
  query_hits :: "(string \<times> nat) list"
  evalueRemovals :: nat

text \<open>d.get(k, default) and d[k] of a defaultdict, on an association list.\<close>

definition dict_get :: "('k \<times> 'v) list \<Rightarrow> 'k \<Rightarrow> 'v \<Rightarrow> 'v" where
  "dict_get d k dflt = (case map_of d k of None \<Rightarrow> dflt | Some v \<Rightarrow> v)"

definition blast_names ::
  "string \<Rightarrow> string \<Rightarrow> bool \<Rightarrow> ('e, 's) blast_line \<Rightarrow> error + (string \<times> string)" where
  "blast_names querydelimiter refdelimiter switchquery l =
     (if switchquery then
        (case rsplit_head refdelimiter (sseqid l) of
           Inl e \<Rightarrow> Inl e
         | Inr queryseq \<Rightarrow>
            (case rsplit_head querydelimiter (qseqid l) of
               Inl e \<Rightarrow> Inl e
             | Inr subjectid \<Rightarrow> Inr (queryseq, subjectid)))
      else
        (case rsplit_head querydelimiter (qseqid l) of
           Inl e \<Rightarrow> Inl e
         | Inr queryseq \<Rightarrow>
            (case rsplit_head refdelimiter (sseqid l) of
               Inl e \<Rightarrow> Inl e
             | Inr subjectid \<Rightarrow> Inr (queryseq, subjectid))))"

text \<open>Lines 135 to 155: the body of the loop over the lines of the file.\<close>

definition blast_step ::
  "'e::linorder \<Rightarrow> string \<Rightarrow> string \<Rightarrow> bool \<Rightarrow> nat \<Rightarrow> ('e, 's) blast_line \<Rightarrow>
   's blast_state \<Rightarrow> error + 's blast_state" where
  "blast_step evaluecutoff querydelimiter refdelimiter switchquery maxhits l st =
     (case blast_names querydelimiter refdelimiter switchquery l of
        Inl e \<Rightarrow> Inl e
      | Inr (queryseq, subjectid) \<Rightarrow>
          if evalue l > evaluecutoff then Inr (st\<lparr>evalueRemovals := evalueRemovals st + 1\<rparr>)
          else if dict_get (query_hits st) queryseq 0 \<ge> maxhits then Inr st
          else Inr (st\<lparr>query_to_sub_dict :=
                           dict_set queryseq
                             (dict_set subjectid (bitscore l)
                                (dict_get (query_to_sub_dict st) queryseq []))
                             (query_to_sub_dict st),
                        query_hits :=
                           dict_set queryseq (dict_get (query_hits st) queryseq 0 + 1)
                             (query_hits st)\<rparr>))"

fun blast_loop ::
  "'e::linorder \<Rightarrow> string \<Rightarrow> string \<Rightarrow> bool \<Rightarrow> nat \<Rightarrow> ('e, 's) blast_line list \<Rightarrow>
   's blast_state \<Rightarrow> error + 's blast_state" where
  "blast_loop evaluecutoff querydelimiter refdelimiter switchquery maxhits [] st = Inr st"
| "blast_loop evaluecutoff querydelimiter refdelimiter switchquery maxhits (l # ls) st =
     (case blast_step evaluecutoff querydelimiter refdelimiter switchquery maxhits l st of
        Inl e \<Rightarrow> Inl e
      | Inr st' \<Rightarrow> blast_loop evaluecutoff querydelimiter refdelimiter switchquery maxhits ls st')"

definition init_blast_state :: "'s blast_state" where
  "init_blast_state = \<lparr>query_to_sub_dict = [], query_hits = [], evalueRemovals = 0\<rparr>"

text \<open>
  parse\_tabular\_blast. The message of line 158 reads queryseq and lsplits, which are
  unbound when the file has no line: NameError. The function returns
  query\_to\_sub\_dict; the model returns the whole state, so that the counter
  query\_hits can be read too.
\<close>

definition parse_tabular_blast_state ::
  "('e, 's) blast_line list \<Rightarrow> 'e::linorder \<Rightarrow> string \<Rightarrow> string \<Rightarrow> bool \<Rightarrow> nat \<Rightarrow>
   error + 's blast_state" where
  "parse_tabular_blast_state blasttabfile evaluecutoff querydelimiter refdelimiter switchquery maxhits =
     (case blast_loop evaluecutoff querydelimiter refdelimiter switchquery maxhits blasttabfile
             init_blast_state of
        Inl e \<Rightarrow> Inl e
      | Inr st \<Rightarrow> if blasttabfile = [] then Inl NameError else Inr st)"

definition parse_tabular_blast ::
  "('e, 's) blast_line list \<Rightarrow> 'e::linorder \<Rightarrow> string \<Rightarrow> string \<Rightarrow> bool \<Rightarrow> nat \<Rightarrow>
   error + (string \<times> (string \<times> 's) list) list" where
  "parse_tabular_blast blasttabfile evaluecutoff querydelimiter refdelimiter switchquery maxhits =
     (case parse_tabular_blast_state blasttabfile evaluecutoff querydelimiter refdelimiter
             switchquery maxhits of
        Inl e \<Rightarrow> Inl e
      | Inr st \<Rightarrow> Inr (query_to_sub_dict st))"

section \<open>parse\_gtf\<close>

text \<open>
  One line of the annotation file that is neither empty nor a comment, split at the
  tabs: the scaffold (column 0), the feature (column 2), start and end (columns 3
  and 4, read by int), the strand (column 6), and what the three regular expressions
  find in the attributes (column 8): group 1 of gene\_id "...", of ID=... and of
  name "...", or None when re.search finds nothing.
\<close>

record gtf_line =
  l_scaffold :: string
  l_feature :: string
  l_start :: int
  l_end :: int
  l_strand :: string
  l_gene_id :: "string option"
  l_ID :: "string option"
  l_name :: "string option"

text \<open>
  The function returns a dict of dicts (scaffold, then gene) for the query and a dict
  keyed by gene for the reference.
\<close>

datatype gtf_index =
    QueryIndex "(string \<times> (string \<times> querygene) list) list"
  | RefIndex "(string \<times> refgene) list"

fun index_len :: "gtf_index \<Rightarrow> nat" where
  "index_len (QueryIndex d) = length d"
| "index_len (RefIndex d) = length d"

record gtf_state =
  genesbyscaffold :: gtf_index
  nametoscaffold :: "(string \<times> string) list"
  nametostrand :: "(string \<times> string) list"
  exonboundaries :: "(string \<times> (int \<times> int) list) list"

text \<open>genesbyscaffold[geneid] = refbounds and genesbyscaffold[scaffold][geneid] = boundstrand\<close>

fun store_gene :: "gtf_index \<Rightarrow> string \<Rightarrow> string \<Rightarrow> int \<Rightarrow> int \<Rightarrow> string \<Rightarrow> gtf_index" where
  "store_gene (RefIndex d) scaffold geneid s e strand =
     RefIndex (dict_set geneid \<lparr>rscaffold = scaffold, rstart = s, rend = e, rstrand = strand\<rparr> d)"
| "store_gene (QueryIndex d) scaffold geneid s e strand =
     QueryIndex (dict_set scaffold
        (dict_set geneid \<lparr>qstart = s, qend = e, qstrand = strand\<rparr> (dict_get d scaffold [])) d)"

text \<open>
  if delimiter: geneid = geneid.rsplit(delimiter,1)[0]. None and the empty string are
  both false, so the split runs on a non-empty delimiter only.
\<close>

definition trim_geneid :: "string option \<Rightarrow> string \<Rightarrow> string" where
  "trim_geneid delimiter geneid =
     (case delimiter of
        None \<Rightarrow> geneid
      | Some d \<Rightarrow> (case rsplit_head d geneid of Inl e \<Rightarrow> geneid | Inr g \<Rightarrow> g))"

text \<open>
  Lines 70 to 103: the body of the loop over the lines. excludedict is given by its
  keys (all its values are True); None and the empty dict are the empty list.
  The gene id of a line is what the first regular expression of the branch finds,
  else what the second one finds; when both find nothing, the second .group(1) raises
  AttributeError outside the try.
\<close>

definition gene_geneid :: "gtf_line \<Rightarrow> string option" where
  "gene_geneid l = (case l_gene_id l of Some g \<Rightarrow> Some g | None \<Rightarrow> l_ID l)"

definition exon_geneid :: "gtf_line \<Rightarrow> string option" where
  "exon_geneid l = (case l_gene_id l of Some g \<Rightarrow> Some g | None \<Rightarrow> l_name l)"

definition gtf_step ::
  "bool \<Rightarrow> string list \<Rightarrow> string option \<Rightarrow> bool \<Rightarrow> gtf_line \<Rightarrow> gtf_state \<Rightarrow> error + gtf_state" where
  "gtf_step exonstogenes excludedict delimiter isref l st =
     (if l_scaffold l \<in> set excludedict then Inr st
      else if l_feature l = ''gene'' \<or> l_feature l = ''transcript'' \<or> l_feature l = ''mRNA'' then
        (case gene_geneid l of
           None \<Rightarrow> Inl AttributeError
         | Some geneid \<Rightarrow>
             Inr (st\<lparr>genesbyscaffold :=
                    store_gene (genesbyscaffold st) (l_scaffold l) (trim_geneid delimiter geneid)
                      (l_start l) (l_end l) (l_strand l)\<rparr>))
      else if exonstogenes \<and> l_feature l = ''exon'' then
        (case exon_geneid l of
           None \<Rightarrow> Inl AttributeError
         | Some geneid \<Rightarrow>
             Inr (st\<lparr>nametoscaffold := dict_set geneid (l_scaffold l) (nametoscaffold st),
                     nametostrand := dict_set geneid (l_strand l) (nametostrand st),
                     exonboundaries :=
                       dict_set geneid (dict_get (exonboundaries st) geneid [] @ [(l_start l, l_end l)])
                         (exonboundaries st)\<rparr>))
      else Inr st)"

fun gtf_loop ::
  "bool \<Rightarrow> string list \<Rightarrow> string option \<Rightarrow> bool \<Rightarrow> gtf_line list \<Rightarrow> gtf_state \<Rightarrow> error + gtf_state" where
  "gtf_loop exonstogenes excludedict delimiter isref [] st = Inr st"
| "gtf_loop exonstogenes excludedict delimiter isref (l # ls) st =
     (case gtf_step exonstogenes excludedict delimiter isref l st of
        Inl e \<Rightarrow> Inl e
      | Inr st' \<Rightarrow> gtf_loop exonstogenes excludedict delimiter isref ls st')"

text \<open>
  Lines 113 to 119: the genes made from the exons, in the order of
  exonboundaries.items(). Every list of exons has at least one element, and every
  gene of exonboundaries is a key of nametoscaffold and of nametostrand; a missing
  key would be a KeyError.
\<close>

fun genes_from_exons ::
  "(string \<times> string) list \<Rightarrow> (string \<times> string) list \<Rightarrow> (string \<times> (int \<times> int) list) list \<Rightarrow>
   gtf_index \<Rightarrow> error + gtf_index" where
  "genes_from_exons n2scaf n2strand [] idx = Inr idx"
| "genes_from_exons n2scaf n2strand ((gene, exons) # rest) idx =
     (case (map_of n2scaf gene, map_of n2strand gene) of
        (Some scaffold, Some strand) \<Rightarrow>
          (if exons = [] then Inl ValueError
           else genes_from_exons n2scaf n2strand rest
                  (store_gene idx scaffold gene (Min (set (map fst exons)))
                     (Max (set (map snd exons))) strand))
      | _ \<Rightarrow> Inl (KeyError gene))"

text \<open>
  parse\_gtf. When no gene was stored and exonstogenes is false, line 112 reads
  exonboundaries, which was never assigned: NameError.
\<close>

definition parse_gtf ::
  "gtf_line list \<Rightarrow> bool \<Rightarrow> string list \<Rightarrow> string option \<Rightarrow> bool \<Rightarrow> error + gtf_index" where
  "parse_gtf gtffile exonstogenes excludedict delimiter isref =
     (case gtf_loop exonstogenes excludedict delimiter isref gtffile
             \<lparr>genesbyscaffold = (if isref then RefIndex [] else QueryIndex []),
              nametoscaffold = [], nametostrand = [], exonboundaries = []\<rparr> of
        Inl e \<Rightarrow> Inl e
      | Inr st \<Rightarrow>
          if index_len (genesbyscaffold st) > 0 then Inr (genesbyscaffold st)
          else if \<not> exonstogenes then Inl NameError
          else genes_from_exons (nametoscaffold st) (nametostrand st) (exonboundaries st)
                 (genesbyscaffold st))"

text \<open>
  A call of parse\_gtf. The parameter delimiter has no default value: a call that
  leaves it out raises TypeError before the body runs.
\<close>

datatype 'a argument = Omitted | Passed 'a

definition parse_gtf_call ::
  "gtf_line list \<Rightarrow> bool \<Rightarrow> string list \<Rightarrow> string option argument \<Rightarrow> bool \<Rightarrow> error + gtf_index" where
  "parse_gtf_call gtffile exonstogenes excludedict delimiter isref =
     (case delimiter of
        Omitted \<Rightarrow> Inl TypeError
      | Passed d \<Rightarrow> parse_gtf gtffile exonstogenes excludedict d isref)"

section \<open>randomize\_genes\<close>

text \<open>
  The gene names of all scaffolds are collected in iteration order, shuffled, and put
  back on the positions in the same order. random.shuffle is a parameter: the
  permutation it happens to produce. genepositions is keyed by gene name only, so of
  two genes with one name on two scaffolds the later position wins.
\<close>

fun reassign ::
  "(string \<times> querygene) list \<Rightarrow> string list \<Rightarrow> (string \<times> (string \<times> querygene) list) list \<Rightarrow>
   (string \<times> (string \<times> querygene) list) list \<Rightarrow> (string \<times> (string \<times> querygene) list) list" where
  "reassign genepositions randomgenelist [] acc = acc"
| "reassign genepositions randomgenelist ((scaffold, genedict) # rest) acc =
     reassign genepositions (drop (length genedict) randomgenelist) rest
       (fold (\<lambda>(newname, (genename, bounds)) a.
                dict_set scaffold
                  (dict_set newname (the (map_of genepositions genename)) (dict_get a scaffold [])) a)
          (zip randomgenelist genedict) acc)"

definition randomize_genes ::
  "(string list \<Rightarrow> string list) \<Rightarrow> (string \<times> (string \<times> querygene) list) list \<Rightarrow>
   (string \<times> (string \<times> querygene) list) list" where
  "randomize_genes shuffle refdict =
     (let allgenes = concat (map snd refdict);
          genepositions = fold (\<lambda>(genename, bounds) d. dict_set genename bounds d) allgenes [];
          randomgenelist = shuffle (map fst allgenes)
      in reassign genepositions randomgenelist refdict [])"

section \<open>main\<close>

text \<open>
  The parsed command line, with the three input files given by their lines and the
  exclusion list by its terms.
\<close>

record ('e, 's) args =
  a_blast :: "('e, 's) blast_line list"
  a_query_gtf :: "gtf_line list"
  a_db_gtf :: "gtf_line list"
  a_query_delimiter :: "string option"
  a_db_delimiter :: "string option"
  a_blast_query_delimiter :: string
  a_blast_db_delimiter :: string
  a_evalue :: 'e
  a_exclude :: "string list option"
  a_no_genes :: bool
  a_minimum :: int
  a_span :: int
  a_distance :: int
  a_randomize :: bool
  a_switch_query :: bool
  a_verbose :: bool

text \<open>
  main returns nothing; the model gives what was written to wayout, and the exception
  when the run ends by one. Lines 393 to 400 build the three dictionaries. In the
  branch of the switch the first call passes three arguments to parse\_gtf, and the
  name querydict is bound to a pair of its result and the db delimiter; a pair has
  no method items, so any later use of it as a dict (in randomize\_genes or at
  line 197 of synteny\_walk) would raise AttributeError. parse\_gtf returns the kind
  of index that isref selects; the cases of the other kind are there for the types
  only. maxhits is left at its default, 100.
\<close>

definition main ::
  "(string list \<Rightarrow> string list) \<Rightarrow> ('e::linorder, 's::linorder) args \<Rightarrow>
   (error \<times> block list) + block list" where
  "main shuffle a =
     (let minimum = (if a_minimum a < 2 then 2 else a_minimum a);
          exclusionDict = (case a_exclude a of None \<Rightarrow> [] | Some terms \<Rightarrow> terms);
          cfg = \<lparr>min_block = minimum, max_span = a_span a, max_distance = a_distance a,
                 is_verbose = a_verbose a\<rparr>
      in if a_switch_query a then
           (case parse_gtf_call (a_db_gtf a) (a_no_genes a) exclusionDict Omitted False of
              Inl e \<Rightarrow> Inl (e, [])
            | Inr q \<Rightarrow>
               (case parse_gtf_call (a_query_gtf a) (a_no_genes a) exclusionDict
                       (Passed (a_query_delimiter a)) True of
                  Inl e \<Rightarrow> Inl (e, [])
                | Inr r \<Rightarrow>
                   (case parse_tabular_blast (a_blast a) (a_evalue a) (a_blast_query_delimiter a)
                           (a_blast_db_delimiter a) True 100 of
                      Inl e \<Rightarrow> Inl (e, [])
                    | Inr b \<Rightarrow> Inl (AttributeError, []))))
         else
           (case parse_gtf_call (a_query_gtf a) (a_no_genes a) exclusionDict
                   (Passed (a_query_delimiter a)) False of
              Inl e \<Rightarrow> Inl (e, [])
            | Inr (RefIndex q) \<Rightarrow> Inl (AttributeError, [])
            | Inr (QueryIndex q) \<Rightarrow>
               (case parse_gtf_call (a_db_gtf a) (a_no_genes a) exclusionDict
                       (Passed (a_db_delimiter a)) True of
                  Inl e \<Rightarrow> Inl (e, [])
                | Inr (QueryIndex r) \<Rightarrow> Inl (AttributeError, [])
                | Inr (RefIndex r) \<Rightarrow>
                   (case parse_tabular_blast (a_blast a) (a_evalue a) (a_blast_query_delimiter a)
                           (a_blast_db_delimiter a) False 100 of
                      Inl e \<Rightarrow> Inl (e, [])
                    | Inr b \<Rightarrow>
                       (case synteny_walk (if a_randomize a then randomize_genes shuffle q else q)
                               (map_of b) (map_of r) cfg of
                          Inl (e, st) \<Rightarrow> Inl (e, wayout st)
                        | Inr st \<Rightarrow> Inr (wayout st))))))"

section \<open>Vocabulary of the proofs\<close>

text \<open>
  The state a call of one of the loops ends in, whether it returned or raised.
\<close>

definition outcome_state :: "ws result \<Rightarrow> ws" where
  "outcome_state res = (case res of Inl (e, st) \<Rightarrow> st | Inr st \<Rightarrow> st)"

definition scan_state :: "(bool \<times> ws) result \<Rightarrow> ws" where
  "scan_state res = (case res of Inl (e, st) \<Rightarrow> st | Inr (b, st) \<Rightarrow> st)"

text \<open>The two messages the statements below are about.\<close>

definition is_StartWalk :: "event \<Rightarrow> bool" where
  "is_StartWalk e = (case e of StartWalk g sc r \<Rightarrow> True | _ \<Rightarrow> False)"

definition is_MatchFound :: "event \<Rightarrow> bool" where
  "is_MatchFound e = (case e of MatchFound m g sc \<Rightarrow> True | _ \<Rightarrow> False)"

text \<open>
  What a walk from one anchor can do to the state, for the current query scaffold
  and the set G of the genes it walks over: nothing is written to wayout and the
  counters of the blocks stay; accounted\_query\_genes grows, by genes of G only; the
  chain grows at its end, by genes that are accounted; the messages are appended,
  none of them the start of a walk, and a message of a match names the current
  scaffold and a gene that is accounted.
\<close>

definition chained :: "string \<Rightarrow> string set \<Rightarrow> ws \<Rightarrow> ws \<Rightarrow> bool" where
  "chained cur G st st' \<longleftrightarrow>
     wayout st' = wayout st \<and> blocklengths st' = blocklengths st \<and>
     scaffoldgenecounts st' = scaffoldgenecounts st \<and> blocknum st' = blocknum st \<and>
     set (accounted_query_genes st) \<subseteq> set (accounted_query_genes st') \<and>
     set (accounted_query_genes st') \<subseteq> set (accounted_query_genes st) \<union> G \<and>
     (\<exists>tail. syntenylist st' = syntenylist st @ tail \<and>
             fst ` set tail \<subseteq> set (accounted_query_genes st')) \<and>
     (\<exists>evs. stderr_log st' = stderr_log st @ evs \<and> (\<forall>e\<in>set evs. \<not> is_StartWalk e) \<and>
            (\<forall>m g sc. MatchFound m g sc \<in> set evs \<longrightarrow>
               sc = cur \<and> g \<in> set (accounted_query_genes st')))"

text \<open>
  No walk is started from a gene after a match was reported for that gene on the same
  scaffold.
\<close>

definition seeds_unmatched :: "event list \<Rightarrow> bool" where
  "seeds_unmatched L \<longleftrightarrow>
     (\<forall>pre g sc r post m. L = pre @ StartWalk g sc r # post \<longrightarrow> MatchFound m g sc \<notin> set pre)"

text \<open>
  The first gene of a written block is not among the genes after the first of a block
  written before it for the same scaffold.
\<close>

definition anchors_fresh :: "block list \<Rightarrow> bool" where
  "anchors_fresh W \<longleftrightarrow>
     (\<forall>pre b2 post b1. W = pre @ b2 # post \<and> b1 \<in> set pre \<and> b_scaffold b1 = b_scaffold b2 \<longrightarrow>
        fst (hd (b_pairs b2)) \<notin> fst ` set (tl (b_pairs b1)))"

text \<open>
  The invariant of the loop over the scaffolds, for the set D of the scaffolds
  visited so far, and the invariant inside the scaffold cur.
\<close>

definition run_inv :: "string set \<Rightarrow> ws \<Rightarrow> bool" where
  "run_inv D st \<longleftrightarrow>
     (\<forall>m g sc. MatchFound m g sc \<in> set (stderr_log st) \<longrightarrow> sc \<in> D) \<and>
     seeds_unmatched (stderr_log st) \<and>
     (\<forall>b\<in>set (wayout st). b_scaffold b \<in> D) \<and>
     anchors_fresh (wayout st)"

definition walk_inv :: "string set \<Rightarrow> string \<Rightarrow> ws \<Rightarrow> bool" where
  "walk_inv D cur st \<longleftrightarrow>
     run_inv (insert cur D) st \<and>
     (\<forall>m g. MatchFound m g cur \<in> set (stderr_log st) \<longrightarrow> g \<in> set (accounted_query_genes st)) \<and>
     (\<forall>b\<in>set (wayout st). b_scaffold b = cur \<longrightarrow>
        fst ` set (tl (b_pairs b)) \<subseteq> set (accounted_query_genes st))"

text \<open>
  Lines 222 to 335 for one hit of an anchor that neither test turns away (line 226: the
  anchor is not on accounted\_query\_genes; line 233: it is not the last gene of the
  scaffold): the chain is seeded with the pair of the anchor and the hit, walked over
  the genes after the anchor, then written as a block or discarded, and the hit
  becomes lastmatch.
\<close>

definition chain_attempt ::
  "config \<Rightarrow> (string \<rightharpoonup> (string \<times> 's::linorder) list) \<Rightarrow> (string \<rightharpoonup> refgene) \<Rightarrow>
   string \<Rightarrow> (string \<times> querygene) list \<Rightarrow> (string \<times> querygene) list \<Rightarrow> nat \<Rightarrow> string \<Rightarrow>
   string \<Rightarrow> ws \<Rightarrow> ws result" where
  "chain_attempt cfg blastdict refdict scaffold transdict orderedtranslist i startingtrans
     blast_refgene st =
     (let st1 = (if blast_refgene = lastmatch st then st\<lparr>splitgenes := splitgenes st + 1\<rparr> else st);
          st2 = st1\<lparr>syntenylist := [(startingtrans, blast_refgene)]\<rparr>;
          st3 = verbose cfg (StartWalk startingtrans scaffold blast_refgene) st2
      in case refdict blast_refgene of
           None \<Rightarrow> Inl (KeyError blast_refgene, st3)
         | Some r \<Rightarrow>
            (case walk_genes cfg blastdict refdict scaffold startingtrans blast_refgene
                    (drop (i + 1) orderedtranslist)
                    (st3\<lparr>refscaffold := rscaffold r, subjectpos := (rstart r, rend r)\<rparr>) of
               Inl e \<Rightarrow> Inl e
             | Inr st4 \<Rightarrow>
                (case write_longest_match cfg refdict scaffold transdict startingtrans st4 of
                   Inl e \<Rightarrow> Inl e
                 | Inr st5 \<Rightarrow> Inr (st5\<lparr>lastmatch := blast_refgene\<rparr>))))"

text \<open>
  One chain attempt for every hit of a list, in the order of the list, each from the
  state the one before ended in; an exception ends it.
\<close>

fun attempt_each ::
  "config \<Rightarrow> (string \<rightharpoonup> (string \<times> 's::linorder) list) \<Rightarrow> (string \<rightharpoonup> refgene) \<Rightarrow>
   string \<Rightarrow> (string \<times> querygene) list \<Rightarrow> (string \<times> querygene) list \<Rightarrow> nat \<Rightarrow> string \<Rightarrow>
   (string \<times> 's) list \<Rightarrow> ws \<Rightarrow> ws result" where
  "attempt_each cfg blastdict refdict scaffold transdict orderedtranslist i startingtrans [] st = Inr st"
| "attempt_each cfg blastdict refdict scaffold transdict orderedtranslist i startingtrans
     ((blast_refgene, bitscore1) # rest) st =
     (case chain_attempt cfg blastdict refdict scaffold transdict orderedtranslist i startingtrans
             blast_refgene st of
        Inl e \<Rightarrow> Inl e
      | Inr st' \<Rightarrow>
          attempt_each cfg blastdict refdict scaffold transdict orderedtranslist i startingtrans
            rest st')"





text \<open>
  For parse\_gtf: the exon records that are read for a gene id, in file order (the
  lines of an excluded scaffold are skipped before the feature is looked at), and the
  entries of an index of either kind as tuples of scaffold, gene, start, end and
  strand.
\<close>

definition exon_lines :: "string list \<Rightarrow> gtf_line list \<Rightarrow> string \<Rightarrow> gtf_line list" where
  "exon_lines excludedict gtffile g =
     filter (\<lambda>l. l_scaffold l \<notin> set excludedict \<and> l_feature l = ''exon'' \<and> exon_geneid l = Some g)
       gtffile"

fun index_entries :: "gtf_index \<Rightarrow> (string \<times> string \<times> int \<times> int \<times> string) list" where
  "index_entries (QueryIndex d) =
     concat (map (\<lambda>(sc, genes). map (\<lambda>(g, q). (sc, g, qstart q, qend q, qstrand q)) genes) d)"
| "index_entries (RefIndex d) =
     map (\<lambda>(g, r). (rscaffold r, g, rstart r, rend r, rstrand r)) d"

text \<open>
  The three dictionaries of the exons after the lines ps were read: every gene id with
  an exon record has the bounds of all its exon records in file order, and the
  strand and the scaffold of the last one.
\<close>

definition exons_read :: "string list \<Rightarrow> gtf_line list \<Rightarrow> gtf_state \<Rightarrow> bool" where
  "exons_read excludedict ps st \<longleftrightarrow>
     index_len (genesbyscaffold st) = 0 \<and>
     distinct (map fst (exonboundaries st)) \<and>
     (\<forall>g. map_of (exonboundaries st) g =
        (if exon_lines excludedict ps g = [] then None
         else Some (map (\<lambda>l. (l_start l, l_end l)) (exon_lines excludedict ps g)))) \<and>
     (\<forall>g. map_of (nametostrand st) g =
        (if exon_lines excludedict ps g = [] then None
         else Some (l_strand (last (exon_lines excludedict ps g))))) \<and>
     (\<forall>g. map_of (nametoscaffold st) g =
        (if exon_lines excludedict ps g = [] then None
         else Some (l_scaffold (last (exon_lines excludedict ps g)))))"

section \<open>Concrete inputs\<close>

text \<open>Shorthands for building the namedtuples of the example inputs.\<close>

definition qg :: "int \<Rightarrow> int \<Rightarrow> querygene" where
  "qg s e = \<lparr>qstart = s, qend = e, qstrand = ''+''\<rparr>"

definition rg :: "string \<Rightarrow> int \<Rightarrow> int \<Rightarrow> refgene" where
  "rg sc s e = \<lparr>rscaffold = sc, rstart = s, rend = e, rstrand = ''+''\<rparr>"

text \<open>
  Scenario B of the specification: one query scaffold X with the genes g1 to g4 in
  this order; g1, g2 and g4 have one blast hit each (r1, r2, r4), g3 has none; the
  reference genes lie at increasing coordinates on the reference scaffold R;
  min\_block is 3, max\_span is 0 and max\_distance is 30000.
\<close>

definition scenB_querydict :: "(string \<times> (string \<times> querygene) list) list" where
  "scenB_querydict =
     [(''X'', [(''g1'', qg 100 200), (''g2'', qg 300 400), (''g3'', qg 500 600),
               (''g4'', qg 700 800)])]"

definition scenB_blastdict :: "string \<rightharpoonup> (string \<times> int) list" where
  "scenB_blastdict = map_of [(''g1'', [(''r1'', 50)]), (''g2'', [(''r2'', 50)]), (''g4'', [(''r4'', 50)])]"

definition scenB_refdict :: "string \<rightharpoonup> refgene" where
  "scenB_refdict = map_of [(''r1'', rg ''R'' 1000 1100), (''r2'', rg ''R'' 1200 1300),
                           (''r3'', rg ''R'' 1400 1500), (''r4'', rg ''R'' 1600 1700)]"

definition scenB_config :: config where
  "scenB_config = \<lparr>min_block = 3, max_span = 0, max_distance = 30000, is_verbose = True\<rparr>"

text \<open>
  A query scaffold X with three genes, and six reference genes: r1, r2, r3 on the
  reference scaffold R and s1, s2, s3 at the same coordinates on the scaffold S.
\<close>

definition three_genes :: "(string \<times> (string \<times> querygene) list) list" where
  "three_genes = [(''X'', [(''g1'', qg 100 200), (''g2'', qg 300 400), (''g3'', qg 500 600)])]"

definition six_refs :: "string \<rightharpoonup> refgene" where
  "six_refs = map_of [(''r1'', rg ''R'' 1000 1100), (''r2'', rg ''R'' 1200 1300),
                      (''r3'', rg ''R'' 1400 1500), (''s1'', rg ''S'' 1000 1100),
                      (''s2'', rg ''S'' 1200 1300), (''s3'', rg ''S'' 1400 1500)]"

definition walk_config :: "int \<Rightarrow> int \<Rightarrow> config" where
  "walk_config m s = \<lparr>min_block = m, max_span = s, max_distance = 30000, is_verbose = True\<rparr>"

text \<open>The same parameters in a run without the option for the messages.\<close>

definition quiet_config :: "int \<Rightarrow> int \<Rightarrow> config" where
  "quiet_config m s = \<lparr>min_block = m, max_span = s, max_distance = 30000, is_verbose = False\<rparr>"

text \<open>Every gene hits one gene on R with score 90 and one gene on S with score 50.\<close>

definition two_hits_each :: "string \<rightharpoonup> (string \<times> int) list" where
  "two_hits_each = map_of [(''g1'', [(''r1'', 90), (''s1'', 50)]),
                           (''g2'', [(''r2'', 90), (''s2'', 50)]),
                           (''g3'', [(''r3'', 90), (''s3'', 50)])]"

text \<open>g1 and g2 hit the same reference gene r1, g3 hits r3.\<close>

definition same_hit :: "string \<rightharpoonup> (string \<times> int) list" where
  "same_hit = map_of [(''g1'', [(''r1'', 90)]), (''g2'', [(''r1'', 90)]), (''g3'', [(''r3'', 90)])]"

text \<open>g2 and g3 hit the same reference gene r2, g1 hits r1.\<close>

definition same_hit_later :: "string \<rightharpoonup> (string \<times> int) list" where
  "same_hit_later = map_of [(''g1'', [(''r1'', 90)]), (''g2'', [(''r2'', 90)]), (''g3'', [(''r2'', 90)])]"

text \<open>g1 and g3 hit the same reference gene r1, g2 hits r2.\<close>

definition anchor_hit_later :: "string \<rightharpoonup> (string \<times> int) list" where
  "anchor_hit_later = map_of [(''g1'', [(''r1'', 90)]), (''g2'', [(''r2'', 90)]), (''g3'', [(''r1'', 90)])]"

text \<open>The state of the walk from the anchor g1 against r1, before the gene g2 is looked at.\<close>

definition after_anchor :: "int \<Rightarrow> ws" where
  "after_anchor steps = init_ws\<lparr>syntenylist := [(''g1'', ''r1'')], walksteps := steps,
     querypos := (100, 200), subjectpos := (1000, 1100), refscaffold := ''R''\<rparr>"

text \<open>g1 hits r1 on R (score 90) and s1 on S (score 50); g2 and g3 hit genes on S only.\<close>

definition second_hit_only :: "string \<rightharpoonup> (string \<times> int) list" where
  "second_hit_only = map_of [(''g1'', [(''r1'', 90), (''s1'', 50)]), (''g2'', [(''s2'', 50)]),
                             (''g3'', [(''s3'', 50)])]"





text \<open>A blast dictionary with no entry, for a query index with no scaffold.\<close>

definition no_hits :: "string \<rightharpoonup> (string \<times> int) list" where
  "no_hits = Map.empty"

text \<open>
  A command line with the option for genes from exons, two annotation files without any
  exon line on a scaffold that is kept, and one blast hit.
\<close>

definition one_blast_line :: "(int, int) blast_line" where
  "one_blast_line = \<lparr>qseqid = ''g1|t1'', sseqid = ''r1|t1'', evalue = 0, bitscore = 50\<rparr>"

definition empty_run_args :: "(int, int) args" where
  "empty_run_args = \<lparr>a_blast = [one_blast_line], a_query_gtf = [], a_db_gtf = [],
     a_query_delimiter = None, a_db_delimiter = None,
     a_blast_query_delimiter = ''|'', a_blast_db_delimiter = ''|'', a_evalue = 1,
     a_exclude = None, a_no_genes = True, a_minimum = 3, a_span = 5, a_distance = 30000,
     a_randomize = False, a_switch_query = False, a_verbose = False\<rparr>"

text \<open>
  A command line with the switch of query and subject: the query annotation has the
  genes g1, g2, g3 on the scaffold X, the db annotation the genes r1, r2, r3 on R, and
  every query gene hits the reference gene of the same number.
\<close>

definition gene_line :: "string \<Rightarrow> string \<Rightarrow> int \<Rightarrow> int \<Rightarrow> gtf_line" where
  "gene_line scaffold name s e =
     \<lparr>l_scaffold = scaffold, l_feature = ''gene'', l_start = s, l_end = e, l_strand = ''+'',
      l_gene_id = Some name, l_ID = None, l_name = None\<rparr>"

definition hit_line :: "string \<Rightarrow> string \<Rightarrow> int \<Rightarrow> (int, int) blast_line" where
  "hit_line q s b = \<lparr>qseqid = q, sseqid = s, evalue = 0, bitscore = b\<rparr>"

definition plain_args :: "(int, int) args" where
  "plain_args = \<lparr>a_blast = [hit_line ''g1|t'' ''r1|t'' 50, hit_line ''g2|t'' ''r2|t'' 50,
                              hit_line ''g3|t'' ''r3|t'' 50],
     a_query_gtf = [gene_line ''X'' ''g1'' 100 200, gene_line ''X'' ''g2'' 300 400,
                    gene_line ''X'' ''g3'' 500 600],
     a_db_gtf = [gene_line ''R'' ''r1'' 1000 1100, gene_line ''R'' ''r2'' 1200 1300,
                 gene_line ''R'' ''r3'' 1400 1500],
     a_query_delimiter = None, a_db_delimiter = None,
     a_blast_query_delimiter = ''|'', a_blast_db_delimiter = ''|'', a_evalue = 1,
     a_exclude = None, a_no_genes = False, a_minimum = 3, a_span = 5, a_distance = 30000,
     a_randomize = False, a_switch_query = False, a_verbose = False\<rparr>"

definition switched_args :: "(int, int) args" where
  "switched_args = plain_args\<lparr>a_switch_query := True\<rparr>"

text \<open>A block on the query scaffold X from 100 to 600, against 1000 to 1500.\<close>

definition x_block :: "nat \<Rightarrow> string \<Rightarrow> (string \<times> string) list \<Rightarrow> block" where
  "x_block n rsc pairs = \<lparr>b_scaffold = ''X'', b_refscaffold = rsc, b_blocknum = n, b_pairs = pairs,
     b_qblockstart = 100, b_qblockend = 600, b_sblockstart = 1000, b_sblockend = 1500,
     b_strand = ''+''\<rparr>"

text \<open>
  The state at the first anchor of a scaffold, with max\_span 5 and the anchor gene at
  100 to 200.
\<close>

definition at_first_anchor :: ws where
  "at_first_anchor = init_ws\<lparr>walksteps := 5, querypos := (100, 200)\<rparr>"


text \<open>
  An annotation without gene records on the scaffolds that are kept: the scaffold bad
  is excluded, the gene g1 has two exons on X, the later one first in the file and on
  the other strand, and g2 has one exon.
\<close>

definition exon_line :: "string \<Rightarrow> string \<Rightarrow> int \<Rightarrow> int \<Rightarrow> string \<Rightarrow> gtf_line" where
  "exon_line scaffold name s e strand =
     \<lparr>l_scaffold = scaffold, l_feature = ''exon'', l_start = s, l_end = e, l_strand = strand,
      l_gene_id = Some name, l_ID = None, l_name = None\<rparr>"

definition exon_file :: "gtf_line list" where
  "exon_file = [gene_line ''bad'' ''g0'' 1 50, exon_line ''bad'' ''g1'' 1 50 ''+'',
                exon_line ''X'' ''g1'' 300 400 ''+'', exon_line ''X'' ''g2'' 500 600 ''+'',
                exon_line ''X'' ''g1'' 100 200 ''-'']"

section \<open>Properties of synteny\_walk\<close>

text \<open>
  Claim C7 (scenario B). On the input of scenario B the run ends with the exit of
  line 341 and writes no block. With max\_span = 0 the test walksteps > 0 of line 242
  fails at the first gene after each anchor, so no chain is ever extended: the walk from
  g1 stops at g2, not at g3, and the two chains that are discarded (from g1 and from
  g2) have one pair each, not two. The messages on stderr are the whole trace.
\<close>

theorem scenario_B_run:
  "(case synteny_walk scenB_querydict scenB_blastdict scenB_refdict scenB_config of
      Inl (e, st) \<Rightarrow>
        e = SysExit no_synteny_message \<and> wayout st = [] \<and>
        stderr_log st =
          [Scanning ''X'' 4,
           StartWalk ''g1'' ''X'' ''r1'', LimitReached ''g2'' ''g1'', BlockIgnored 1,
           StartWalk ''g2'' ''X'' ''r2'', LimitReached ''g3'' ''g2'', BlockIgnored 1,
           NoBlast ''g3'', TooFew ''g4'' ''X'']
    | Inr st \<Rightarrow> False)"
  by code_simp

text \<open>
  Claim C4 (a hit equal to the hit of the anchor). Three runs of the code.
  First, g1 and g2 both hit r1, g3 hits r3, max\_span is 1 and min\_block is 2: the hit
  of g2 equals blast\_refgene, g2 is put on accounted\_query\_genes and the loop over its
  hits goes on (continue); the loop ends without break, so the else branch of line 286
  takes one step off the budget. The walk stops at g3 with the budget used up, and the
  run ends without a block.
  Second, the same step alone: the walk over the single gene g2 takes walksteps from 1
  to 0.
  Third, g2 and g3 both hit r2 and g1 hits r1: the comparison of line 259 is with the
  hit of the anchor (r1), not with the last reference gene of the chain (r2), so the
  pair (g3, r2) is appended after (g2, r2).
\<close>

theorem same_hit_costs_a_step:
  "(case synteny_walk three_genes same_hit six_refs (walk_config 2 1) of
      Inl (e, st) \<Rightarrow>
        e = SysExit no_synteny_message \<and> wayout st = [] \<and>
        stderr_log st =
          [Scanning ''X'' 3, StartWalk ''g1'' ''X'' ''r1'', LimitReached ''g3'' ''g1'',
           BlockIgnored 1, AlreadyMatched ''g2'' ''X'', TooFew ''g3'' ''X'']
    | Inr st \<Rightarrow> False) \<and>
   (case walk_genes (walk_config 2 1) same_hit six_refs ''X'' ''g1'' ''r1''
           [(''g2'', qg 300 400)] (after_anchor 1) of
      Inr st \<Rightarrow>
        walksteps (after_anchor 1) = 1 \<and> walksteps st = 0 \<and>
        syntenylist st = [(''g1'', ''r1'')] \<and> accounted_query_genes st = [''g2'']
    | Inl e \<Rightarrow> False) \<and>
   (case synteny_walk three_genes same_hit_later six_refs (walk_config 3 1) of
      Inr st \<Rightarrow> map b_pairs (wayout st) = [[(''g1'', ''r1''), (''g2'', ''r2''), (''g3'', ''r2'')]]
    | Inl e \<Rightarrow> False)"
  by code_simp

text \<open>
  Claim C6 (the exit when no block was found). On a query index without any scaffold
  the loops do nothing and no block is written, but the run does not reach the exit of
  line 341: line 337 takes the maximum of an empty list and raises ValueError. main
  gives synteny\_walk such an index when genes are made from exons and the query
  annotation has no exon line.
\<close>

theorem empty_query_index_value_error:
  "synteny_walk [] no_hits six_refs (walk_config 3 5) = Inl (ValueError, init_ws) \<and>
   wayout init_ws = [] \<and>
   parse_gtf [] True [] None False = Inr (QueryIndex []) \<and>
   main id empty_run_args = Inl (ValueError, [])"
  by code_simp

subsection \<open>Fields left alone by the messages\<close>

lemma verbose_fields [simp]:
  "syntenylist (verbose cfg e st) = syntenylist st"
  "walksteps (verbose cfg e st) = walksteps st"
  "querypos (verbose cfg e st) = querypos st"
  "subjectpos (verbose cfg e st) = subjectpos st"
  "refscaffold (verbose cfg e st) = refscaffold st"
  "accounted_query_genes (verbose cfg e st) = accounted_query_genes st"
  "lastmatch (verbose cfg e st) = lastmatch st"
  "splitgenes (verbose cfg e st) = splitgenes st"
  "blocknum (verbose cfg e st) = blocknum st"
  "blocklengths (verbose cfg e st) = blocklengths st"
  "scaffoldgenecounts (verbose cfg e st) = scaffoldgenecounts st"
  "basetotal (verbose cfg e st) = basetotal st"
  "wayout (verbose cfg e st) = wayout st"
  by (simp_all add: verbose_def write_err_def)

lemma verbose_log:
  "stderr_log (verbose cfg e st) = (if is_verbose cfg then stderr_log st @ [e] else stderr_log st)"
  by (simp add: verbose_def write_err_def)

subsection \<open>The loop over the hits of the next gene\<close>

text \<open>
  What one run of the loop can do to the chain: either nothing, or it appends one pair
  whose reference gene is another gene than the anchor's hit, lies on the reference
  scaffold of the chain and is within max\_distance of the chain's reference bounds
  on both sides.
\<close>

lemma scan_matches_appended:
  "scan_matches cfg refdict scaffold blast_refgene next_gene ms st = Inr (b, st') \<Longrightarrow>
   refscaffold st' = refscaffold st \<and>
   (if b then (\<exists>m r. m \<in> fst ` set ms \<and> m \<noteq> blast_refgene \<and>
          syntenylist st' = syntenylist st @ [(next_gene, m)] \<and> refdict m = Some r \<and>
          rscaffold r = refscaffold st \<and>
          rstart r - snd (subjectpos st) \<le> max_distance cfg \<and>
          fst (subjectpos st) - rend r \<le> max_distance cfg)
    else syntenylist st' = syntenylist st \<and> subjectpos st' = subjectpos st \<and> walksteps st' = walksteps st)"
proof (induction ms arbitrary: st)
  case Nil
  then show ?case by auto
next
  case (Cons a ms)
  obtain m s where a: "a = (m, s)" by (cases a)
  show ?case
  proof (cases "m = blast_refgene")
    case True
    with Cons.prems a have "scan_matches cfg refdict scaffold blast_refgene next_gene ms
          (st\<lparr>accounted_query_genes := accounted_query_genes st @ [next_gene]\<rparr>) = Inr (b, st')"
      by simp
    from Cons.IH[OF this] show ?thesis by (auto split: if_splits)
  next
    case False
    then show ?thesis using Cons.prems a
      apply (simp split: option.splits if_splits add: Let_def)
      subgoal by (drule Cons.IH) (auto split: if_splits)
      subgoal by auto
      subgoal by (drule Cons.IH) (auto split: if_splits)
      done
  qed
qed

text \<open>
  What the loop does with a scanned hit other than blast\_refgene that the reference
  index knows: it is accepted if and only if its reference scaffold is the one of the
  chain and both distances are at most max\_distance. When it is accepted the result
  does not depend on the hits after it (they are not scanned), the pair is appended,
  the gene is put on accounted\_query\_genes, walksteps is max\_span and subjectpos is
  the position of the hit. When it is not accepted the scan goes on with the next hits
  from a state with the same chain, budget, bounds and accounted genes. And whatever
  the list of hits is, a pair the loop adds to the chain has its reference gene on the
  reference scaffold of the chain.
\<close>

lemma scan_matches_other_hit:
  assumes "next_match \<noteq> blast_refgene" and "refdict next_match = Some r"
  shows
   "(rscaffold r = refscaffold st \<and> rstart r - snd (subjectpos st) \<le> max_distance cfg \<and>
       fst (subjectpos st) - rend r \<le> max_distance cfg \<longrightarrow>
     (\<exists>st'. (\<forall>rest. scan_matches cfg refdict scaffold blast_refgene next_gene
                        ((next_match, bitscoreN) # rest) st = Inr (True, st')) \<and>
            syntenylist st' = syntenylist st @ [(next_gene, next_match)] \<and>
            accounted_query_genes st' = accounted_query_genes st @ [next_gene] \<and>
            walksteps st' = max_span cfg \<and>
            subjectpos st' = (rstart r, rend r))) \<and>
    (\<not> (rscaffold r = refscaffold st \<and> rstart r - snd (subjectpos st) \<le> max_distance cfg \<and>
        fst (subjectpos st) - rend r \<le> max_distance cfg) \<longrightarrow>
     (\<exists>st'. (\<forall>rest. scan_matches cfg refdict scaffold blast_refgene next_gene
                        ((next_match, bitscoreN) # rest) st =
                      scan_matches cfg refdict scaffold blast_refgene next_gene rest st') \<and>
            syntenylist st' = syntenylist st \<and>
            accounted_query_genes st' = accounted_query_genes st \<and>
            walksteps st' = walksteps st \<and>
            subjectpos st' = subjectpos st \<and>
            refscaffold st' = refscaffold st)) \<and>
    (\<forall>ms b st' g m. scan_matches cfg refdict scaffold blast_refgene next_gene ms st = Inr (b, st') \<and>
        (g, m) \<in> set (syntenylist st') \<and> (g, m) \<notin> set (syntenylist st) \<longrightarrow>
        (\<exists>r'. refdict m = Some r' \<and> rscaffold r' = refscaffold st))"
proof (intro conjI impI allI)
  assume c: "rscaffold r = refscaffold st \<and> rstart r - snd (subjectpos st) \<le> max_distance cfg \<and>
       fst (subjectpos st) - rend r \<le> max_distance cfg"
  show "\<exists>st'. (\<forall>rest. scan_matches cfg refdict scaffold blast_refgene next_gene
                        ((next_match, bitscoreN) # rest) st = Inr (True, st')) \<and>
            syntenylist st' = syntenylist st @ [(next_gene, next_match)] \<and>
            accounted_query_genes st' = accounted_query_genes st @ [next_gene] \<and>
            walksteps st' = max_span cfg \<and>
            subjectpos st' = (rstart r, rend r)"
    using assms c
    by (intro exI[of _ "(verbose cfg (MatchFound next_match next_gene scaffold) st)
                         \<lparr>walksteps := max_span cfg,
                          subjectpos := (rstart r, rend r),
                          accounted_query_genes := accounted_query_genes st @ [next_gene],
                          syntenylist := syntenylist st @ [(next_gene, next_match)]\<rparr>"])
       (simp add: Let_def)
next
  assume c: "\<not> (rscaffold r = refscaffold st \<and> rstart r - snd (subjectpos st) \<le> max_distance cfg \<and>
        fst (subjectpos st) - rend r \<le> max_distance cfg)"
  show "\<exists>st'. (\<forall>rest. scan_matches cfg refdict scaffold blast_refgene next_gene
                        ((next_match, bitscoreN) # rest) st =
                      scan_matches cfg refdict scaffold blast_refgene next_gene rest st') \<and>
            syntenylist st' = syntenylist st \<and>
            accounted_query_genes st' = accounted_query_genes st \<and>
            walksteps st' = walksteps st \<and>
            subjectpos st' = subjectpos st \<and>
            refscaffold st' = refscaffold st"
  proof (cases "rscaffold r = refscaffold st")
    case True
    then show ?thesis using assms c
      by (intro exI[of _ "verbose cfg (MatchTooFar next_gene next_match
                          (max (rstart r - snd (subjectpos st)) (fst (subjectpos st) - rend r))) st"])
         (auto simp add: Let_def)
  next
    case False
    then show ?thesis using assms
      by (intro exI[of _ "verbose cfg (WrongContig next_gene next_match (rscaffold r)) st"])
         (simp add: Let_def)
  qed
next
  fix ms b st' g m
  assume a: "scan_matches cfg refdict scaffold blast_refgene next_gene ms st = Inr (b, st') \<and>
        (g, m) \<in> set (syntenylist st') \<and> (g, m) \<notin> set (syntenylist st)"
  from scan_matches_appended[of cfg refdict scaffold blast_refgene next_gene ms st b st'] a
  show "\<exists>r'. refdict m = Some r' \<and> rscaffold r' = refscaffold st"
    by (cases b) auto
qed

text \<open>
  Claim C2 (acceptance of a hit). g1 hits r1, g2 hits r2 and g3 hits r1 again. The
  walk from g1 against r1 takes (g2, r2); the chain then ends with r2 and its reference
  bounds are 1200..1300. The hit r1 of g3 is not the last reference gene of the chain,
  it lies on the reference scaffold of the chain, and both distances (1000 - 1300 and
  1200 - 1100) are at most max\_distance: by the rule of the claim it is accepted.
  Line 259 compares it with blast\_refgene, the hit of the anchor, where its comment
  speaks of the last match; the hit is taken for the same match and the loop ends
  without break: no pair is appended, the bounds stay, g3 is put on
  accounted\_query\_genes and the else branch of line 286 takes a step off the budget.
  In the whole run the chain is discarded with two pairs instead of three, g2 and g3
  are skipped as anchors, and the run ends without a block.
\<close>

theorem anchor_hit_later_not_accepted:
  "(case walk_genes (walk_config 3 5) anchor_hit_later six_refs ''X'' ''g1'' ''r1''
           [(''g2'', qg 300 400)] (after_anchor 5) of
      Inr st \<Rightarrow>
        syntenylist st = [(''g1'', ''r1''), (''g2'', ''r2'')] \<and>
        refscaffold st = ''R'' \<and> subjectpos st = (1200, 1300) \<and> walksteps st = 5 \<and>
        accounted_query_genes st = [''g2''] \<and>
        ''r1'' \<noteq> snd (last (syntenylist st)) \<and>
        six_refs ''r1'' = Some (rg ''R'' 1000 1100) \<and>
        rscaffold (rg ''R'' 1000 1100) = refscaffold st \<and>
        rstart (rg ''R'' 1000 1100) - snd (subjectpos st) \<le> max_distance (walk_config 3 5) \<and>
        fst (subjectpos st) - rend (rg ''R'' 1000 1100) \<le> max_distance (walk_config 3 5) \<and>
        scan_matches (walk_config 3 5) six_refs ''X'' ''r1'' ''g3'' [(''r1'', 90::int)] st
          = Inr (False, st\<lparr>accounted_query_genes := [''g2'', ''g3'']\<rparr>) \<and>
        (case walk_genes (walk_config 3 5) anchor_hit_later six_refs ''X'' ''g1'' ''r1''
                [(''g3'', qg 500 600)] st of
           Inr st' \<Rightarrow>
             syntenylist st' = [(''g1'', ''r1''), (''g2'', ''r2'')] \<and>
             accounted_query_genes st' = [''g2'', ''g3''] \<and>
             subjectpos st' = (1200, 1300) \<and> walksteps st' = 4
         | Inl e \<Rightarrow> False)
    | Inl e \<Rightarrow> False) \<and>
   (case synteny_walk three_genes anchor_hit_later six_refs (walk_config 3 5) of
      Inl (e, st) \<Rightarrow>
        e = SysExit no_synteny_message \<and> wayout st = [] \<and>
        stderr_log st =
          [Scanning ''X'' 3, StartWalk ''g1'' ''X'' ''r1'', MatchFound ''r2'' ''g2'' ''X'',
           BlockIgnored 2, AlreadyMatched ''g2'' ''X'', AlreadyMatched ''g3'' ''X'']
    | Inr st \<Rightarrow> False)"
  by code_simp

subsection \<open>The walk from one anchor\<close>

lemma chained_refl: "chained cur G st st"
  by (simp add: chained_def)

lemma chained_trans:
  assumes "chained cur G st st'" and "chained cur H st' st''"
  shows "chained cur (G \<union> H) st st''"
proof -
  from assms(1) obtain t1 e1 where
    1: "syntenylist st' = syntenylist st @ t1" "fst ` set t1 \<subseteq> set (accounted_query_genes st')"
       "stderr_log st' = stderr_log st @ e1" "\<forall>e\<in>set e1. \<not> is_StartWalk e"
       "\<forall>m g sc. MatchFound m g sc \<in> set e1 \<longrightarrow> sc = cur \<and> g \<in> set (accounted_query_genes st')"
    unfolding chained_def by blast
  from assms(2) obtain t2 e2 where
    2: "syntenylist st'' = syntenylist st' @ t2" "fst ` set t2 \<subseteq> set (accounted_query_genes st'')"
       "stderr_log st'' = stderr_log st' @ e2" "\<forall>e\<in>set e2. \<not> is_StartWalk e"
       "\<forall>m g sc. MatchFound m g sc \<in> set e2 \<longrightarrow> sc = cur \<and> g \<in> set (accounted_query_genes st'')"
    unfolding chained_def by blast
  have sub: "set (accounted_query_genes st') \<subseteq> set (accounted_query_genes st'')"
    using assms(2) unfolding chained_def by blast
  have a: "syntenylist st'' = syntenylist st @ (t1 @ t2) \<and>
        fst ` set (t1 @ t2) \<subseteq> set (accounted_query_genes st'')"
    using 1(1,2) 2(1,2) sub by auto
  have b: "stderr_log st'' = stderr_log st @ (e1 @ e2) \<and> (\<forall>e\<in>set (e1 @ e2). \<not> is_StartWalk e) \<and>
        (\<forall>m g sc. MatchFound m g sc \<in> set (e1 @ e2) \<longrightarrow>
               sc = cur \<and> g \<in> set (accounted_query_genes st''))"
    using 1(3,4,5) 2(3,4,5) sub by auto
  have c: "wayout st'' = wayout st \<and> blocklengths st'' = blocklengths st \<and>
     scaffoldgenecounts st'' = scaffoldgenecounts st \<and> blocknum st'' = blocknum st \<and>
     set (accounted_query_genes st) \<subseteq> set (accounted_query_genes st'') \<and>
     set (accounted_query_genes st'') \<subseteq> set (accounted_query_genes st) \<union> (G \<union> H)"
    using assms unfolding chained_def by auto
  show ?thesis unfolding chained_def using a b c by blast
qed

lemma chained_mono: "chained cur G st st' \<Longrightarrow> G \<subseteq> H \<Longrightarrow> chained cur H st st'"
  unfolding chained_def by blast

lemma chained_verbose:
  "\<not> is_StartWalk e \<Longrightarrow> \<not> is_MatchFound e \<Longrightarrow> chained cur G st (verbose cfg e st)"
  by (auto simp add: chained_def verbose_log is_MatchFound_def)

lemma chained_write_err:
  "\<not> is_StartWalk e \<Longrightarrow> \<not> is_MatchFound e \<Longrightarrow> chained cur G st (write_err e st)"
  by (auto simp add: chained_def write_err_def is_MatchFound_def)

lemma chained_walksteps: "chained cur G st (st\<lparr>walksteps := w\<rparr>)"
  by (simp add: chained_def)

lemma chained_querypos: "chained cur G st (st\<lparr>querypos := w\<rparr>)"
  by (simp add: chained_def)

lemma chained_continue:
  "g \<in> G \<Longrightarrow> chained cur G st (st\<lparr>accounted_query_genes := accounted_query_genes st @ [g]\<rparr>)"
  by (auto simp add: chained_def)

lemma chained_accept:
  "g \<in> G \<Longrightarrow> chained cur G st
     ((verbose cfg (MatchFound m g cur) st)
        \<lparr>walksteps := w, subjectpos := p,
         accounted_query_genes := accounted_query_genes st @ [g],
         syntenylist := syntenylist st @ [(g, m)]\<rparr>)"
  by (auto simp add: chained_def verbose_log is_StartWalk_def)

lemma scan_matches_chained:
  "chained cur {next_gene} st
     (scan_state (scan_matches cfg refdict cur blast_refgene next_gene ms st))"
proof (induction ms arbitrary: st)
  case Nil
  show ?case by (simp add: scan_state_def chained_refl)
next
  case (Cons a ms)
  obtain m s where a: "a = (m, s)" by (cases a)
  have step: "\<And>st'. chained cur {next_gene} st st' \<Longrightarrow>
      chained cur {next_gene} st
        (scan_state (scan_matches cfg refdict cur blast_refgene next_gene ms st'))"
  proof -
    fix st' assume c: "chained cur {next_gene} st st'"
    from chained_trans[OF c Cons.IH[of st']]
    show "chained cur {next_gene} st
        (scan_state (scan_matches cfg refdict cur blast_refgene next_gene ms st'))"
      by simp
  qed
  show ?case
  proof (cases "m = blast_refgene")
    case True
    then show ?thesis using a step[OF chained_continue[where g=next_gene and G="{next_gene}" and cur=cur and st=st]] by simp
  next
    case False
    show ?thesis
    proof (cases "refdict m")
      case None
      then show ?thesis using False a by (simp add: scan_state_def chained_refl)
    next
      case (Some r)
      then show ?thesis using False a
        step[OF chained_verbose[where e="MatchTooFar next_gene m
               (max (rstart r - snd (subjectpos st)) (fst (subjectpos st) - rend r))"
               and cur=cur and G="{next_gene}" and st=st and cfg=cfg]]
        step[OF chained_verbose[where e="WrongContig next_gene m (rscaffold r)"
               and cur=cur and G="{next_gene}" and st=st and cfg=cfg]]
        chained_accept[where g=next_gene and G="{next_gene}" and cur=cur and st=st and cfg=cfg
               and m=m and w="max_span cfg" and p="(rstart r, rend r)"]
        by (simp add: Let_def scan_state_def is_StartWalk_def is_MatchFound_def)
    qed
  qed
qed

lemma scan_matches_Inr_chained:
  "scan_matches cfg refdict cur blast_refgene next_gene ms st = Inr (b, st') \<Longrightarrow>
   chained cur {next_gene} st st'"
  using scan_matches_chained[where cur=cur and next_gene=next_gene and st=st and cfg=cfg
         and refdict=refdict and blast_refgene=blast_refgene and ms=ms]
  by (simp add: scan_state_def)

lemma scan_matches_Inl_chained:
  "scan_matches cfg refdict cur blast_refgene next_gene ms st = Inl (e, st') \<Longrightarrow>
   chained cur {next_gene} st st'"
  using scan_matches_chained[where cur=cur and next_gene=next_gene and st=st and cfg=cfg
         and refdict=refdict and blast_refgene=blast_refgene and ms=ms]
  by (simp add: scan_state_def)

lemma walk_genes_chained:
  "chained cur (fst ` set genes) st
     (outcome_state (walk_genes cfg blastdict refdict cur startingtrans blast_refgene genes st))"
proof (induction genes arbitrary: st)
  case Nil
  show ?case by (simp add: outcome_state_def chained_refl)
next
  case (Cons a genes)
  obtain g info where a: "a = (g, info)" by (cases a)
  let ?G = "fst ` set (a # genes)"
  have step: "\<And>st'. chained cur ?G st st' \<Longrightarrow>
      chained cur ?G st
        (outcome_state (walk_genes cfg blastdict refdict cur startingtrans blast_refgene genes st'))"
  proof -
    fix st' assume c: "chained cur ?G st st'"
    from chained_trans[OF c Cons.IH[of st']]
    show "chained cur ?G st
        (outcome_state (walk_genes cfg blastdict refdict cur startingtrans blast_refgene genes st'))"
      by (rule chained_mono) auto
  qed
  let ?st1 = "st\<lparr>querypos := (qstart info, qend info)\<rparr>"
  have c1: "chained cur ?G st ?st1" by (rule chained_querypos)
  show ?case
  proof (cases "walksteps st > 0")
    case False
    then show ?thesis using a
      by (simp add: outcome_state_def chained_verbose is_StartWalk_def is_MatchFound_def)
  next
    case pos: True
    show ?thesis
    proof (cases "qstart info - snd (querypos st) > max_distance cfg")
      case True
      then show ?thesis using a pos
        by (simp add: outcome_state_def chained_verbose is_StartWalk_def is_MatchFound_def Let_def)
    next
      case near: False
      show ?thesis
      proof (cases "blastdict g")
        case None
        have "chained cur ?G st ((verbose cfg (NoBlastNext g) ?st1)\<lparr>walksteps := walksteps ?st1 - 1\<rparr>)"
          using chained_trans[OF chained_trans[OF c1 chained_verbose[where e="NoBlastNext g" and cur=cur and G="?G" and st="?st1" and cfg=cfg]]
                 chained_walksteps[where cur=cur and G="?G" and st="verbose cfg (NoBlastNext g) ?st1" and w="walksteps ?st1 - 1"]]
          by (simp add: is_StartWalk_def is_MatchFound_def)
        from step[OF this] show ?thesis using a pos near None by (simp add: Let_def)
      next
        case (Some d)
        show ?thesis
        proof (cases "scan_matches cfg refdict cur blast_refgene g (sorted_desc snd d) ?st1")
          case (Inl x)
          obtain e st' where x: "x = (e, st')" by (cases x)
          have "chained cur ?G st st'"
            using chained_trans[OF c1 chained_mono[OF scan_matches_Inl_chained[OF Inl[unfolded x]], where H="?G"]] a
            by simp
          then show ?thesis using a pos near Some Inl x by (simp add: Let_def outcome_state_def)
        next
          case (Inr y)
          obtain b st' where y: "y = (b, st')" by (cases y)
          have c2: "chained cur ?G st st'"
            using chained_trans[OF c1 chained_mono[OF scan_matches_Inr_chained[OF Inr[unfolded y]], where H="?G"]] a
            by simp
          have c3: "chained cur ?G st (st'\<lparr>walksteps := walksteps st' - 1\<rparr>)"
            using chained_trans[OF c2 chained_walksteps[where cur=cur and G="?G" and st=st' and w="walksteps st' - 1"]] by simp
          show ?thesis using a pos near Some Inr y step[OF c2] step[OF c3]
            by (cases b) (simp_all add: Let_def)
        qed
      qed
    qed
  qed
qed

subsection \<open>Messages and blocks of a whole run\<close>

lemma snoc_decomp:
  "L @ [e] = pre @ x # post \<Longrightarrow>
   (post = [] \<and> pre = L \<and> x = e) \<or> (\<exists>post'. post = post' @ [e] \<and> L = pre @ x # post')"
  by (cases post rule: rev_cases) auto

lemma seeds_unmatched_snoc:
  "seeds_unmatched (L @ [e]) \<longleftrightarrow>
     seeds_unmatched L \<and> (\<forall>g sc r m. e = StartWalk g sc r \<longrightarrow> MatchFound m g sc \<notin> set L)"
proof
  assume a: "seeds_unmatched (L @ [e])"
  have 1: "seeds_unmatched L"
    unfolding seeds_unmatched_def
  proof (intro allI impI)
    fix pre g sc r post m assume "L = pre @ StartWalk g sc r # post"
    then have "L @ [e] = pre @ StartWalk g sc r # (post @ [e])" by simp
    with a show "MatchFound m g sc \<notin> set pre" unfolding seeds_unmatched_def by blast
  qed
  have 2: "\<forall>g sc r m. e = StartWalk g sc r \<longrightarrow> MatchFound m g sc \<notin> set L"
  proof (intro allI impI)
    fix g sc r m assume "e = StartWalk g sc r"
    then have "L @ [e] = L @ StartWalk g sc r # []" by simp
    with a show "MatchFound m g sc \<notin> set L" unfolding seeds_unmatched_def by blast
  qed
  from 1 2 show "seeds_unmatched L \<and> (\<forall>g sc r m. e = StartWalk g sc r \<longrightarrow> MatchFound m g sc \<notin> set L)"
    by blast
next
  assume a: "seeds_unmatched L \<and> (\<forall>g sc r m. e = StartWalk g sc r \<longrightarrow> MatchFound m g sc \<notin> set L)"
  show "seeds_unmatched (L @ [e])"
    unfolding seeds_unmatched_def
  proof (intro allI impI)
    fix pre g sc r post m assume d: "L @ [e] = pre @ StartWalk g sc r # post"
    from snoc_decomp[OF d] show "MatchFound m g sc \<notin> set pre"
    proof
      assume "post = [] \<and> pre = L \<and> StartWalk g sc r = e"
      with a show ?thesis by auto
    next
      assume "\<exists>post'. post = post' @ [e] \<and> L = pre @ StartWalk g sc r # post'"
      with a show ?thesis unfolding seeds_unmatched_def by blast
    qed
  qed
qed

lemma seeds_unmatched_append:
  "seeds_unmatched L \<Longrightarrow> \<forall>e\<in>set evs. \<not> is_StartWalk e \<Longrightarrow> seeds_unmatched (L @ evs)"
proof (induction evs rule: rev_induct)
  case Nil
  then show ?case by simp
next
  case (snoc x xs)
  then have "seeds_unmatched (L @ xs)" by simp
  moreover have "\<not> is_StartWalk x" using snoc.prems by simp
  ultimately have "seeds_unmatched ((L @ xs) @ [x])"
    unfolding seeds_unmatched_snoc by (auto simp add: is_StartWalk_def)
  then show ?case by simp
qed

lemma anchors_fresh_snoc:
  "anchors_fresh (W @ [b]) \<longleftrightarrow>
     anchors_fresh W \<and>
     (\<forall>b1\<in>set W. b_scaffold b1 = b_scaffold b \<longrightarrow>
        fst (hd (b_pairs b)) \<notin> fst ` set (tl (b_pairs b1)))"
proof
  assume a: "anchors_fresh (W @ [b])"
  have 1: "anchors_fresh W"
    unfolding anchors_fresh_def
  proof (intro allI impI)
    fix pre b2 post b1
    assume h: "W = pre @ b2 # post \<and> b1 \<in> set pre \<and> b_scaffold b1 = b_scaffold b2"
    then have "W @ [b] = pre @ b2 # (post @ [b])" by simp
    with a h show "fst (hd (b_pairs b2)) \<notin> fst ` set (tl (b_pairs b1))"
      unfolding anchors_fresh_def by blast
  qed
  have 2: "\<forall>b1\<in>set W. b_scaffold b1 = b_scaffold b \<longrightarrow>
        fst (hd (b_pairs b)) \<notin> fst ` set (tl (b_pairs b1))"
  proof (intro ballI impI)
    fix b1 assume h: "b1 \<in> set W" "b_scaffold b1 = b_scaffold b"
    have "W @ [b] = W @ b # []" by simp
    with a h show "fst (hd (b_pairs b)) \<notin> fst ` set (tl (b_pairs b1))"
      unfolding anchors_fresh_def by blast
  qed
  from 1 2 show "anchors_fresh W \<and>
     (\<forall>b1\<in>set W. b_scaffold b1 = b_scaffold b \<longrightarrow>
        fst (hd (b_pairs b)) \<notin> fst ` set (tl (b_pairs b1)))" by blast
next
  assume a: "anchors_fresh W \<and>
     (\<forall>b1\<in>set W. b_scaffold b1 = b_scaffold b \<longrightarrow>
        fst (hd (b_pairs b)) \<notin> fst ` set (tl (b_pairs b1)))"
  show "anchors_fresh (W @ [b])"
    unfolding anchors_fresh_def
  proof (intro allI impI)
    fix pre b2 post b1
    assume h: "W @ [b] = pre @ b2 # post \<and> b1 \<in> set pre \<and> b_scaffold b1 = b_scaffold b2"
    then have d: "W @ [b] = pre @ b2 # post" by simp
    from snoc_decomp[OF d] show "fst (hd (b_pairs b2)) \<notin> fst ` set (tl (b_pairs b1))"
    proof
      assume "post = [] \<and> pre = W \<and> b2 = b"
      with a h show ?thesis by auto
    next
      assume "\<exists>post'. post = post' @ [b] \<and> W = pre @ b2 # post'"
      with a h show ?thesis unfolding anchors_fresh_def by blast
    qed
  qed
qed

lemma run_inv_mono: "run_inv D st \<Longrightarrow> D \<subseteq> E \<Longrightarrow> run_inv E st"
  unfolding run_inv_def by blast

lemma run_inv_chained:
  assumes "run_inv D st" and "chained cur G st st'" and "cur \<in> D"
  shows "run_inv D st'"
proof -
  from assms(2) obtain evs where
    e: "stderr_log st' = stderr_log st @ evs" "\<forall>e\<in>set evs. \<not> is_StartWalk e"
       "\<forall>m g sc. MatchFound m g sc \<in> set evs \<longrightarrow> sc = cur \<and> g \<in> set (accounted_query_genes st')"
    and w: "wayout st' = wayout st"
    unfolding chained_def by blast
  have "seeds_unmatched (stderr_log st')"
    using assms(1) e(1,2) seeds_unmatched_append unfolding run_inv_def by simp
  moreover have "\<forall>m g sc. MatchFound m g sc \<in> set (stderr_log st') \<longrightarrow> sc \<in> D"
    using assms(1,3) e(1,3) unfolding run_inv_def by auto
  ultimately show ?thesis using assms(1) w unfolding run_inv_def by simp
qed

lemma walk_inv_chained:
  assumes "walk_inv D cur st" and "chained cur G st st'"
  shows "walk_inv D cur st'"
proof -
  from assms(2) obtain evs where
    e: "stderr_log st' = stderr_log st @ evs"
       "\<forall>m g sc. MatchFound m g sc \<in> set evs \<longrightarrow> sc = cur \<and> g \<in> set (accounted_query_genes st')"
    and w: "wayout st' = wayout st"
    and s: "set (accounted_query_genes st) \<subseteq> set (accounted_query_genes st')"
    unfolding chained_def by blast
  have r: "run_inv (insert cur D) st'"
    using run_inv_chained[OF _ assms(2)] assms(1) unfolding walk_inv_def by simp
  have a: "\<forall>m g. MatchFound m g cur \<in> set (stderr_log st') \<longrightarrow> g \<in> set (accounted_query_genes st')"
    using assms(1) e s unfolding walk_inv_def by auto
  have b: "\<forall>b\<in>set (wayout st'). b_scaffold b = cur \<longrightarrow>
        fst ` set (tl (b_pairs b)) \<subseteq> set (accounted_query_genes st')"
  proof (intro ballI impI)
    fix b assume h: "b \<in> set (wayout st')" "b_scaffold b = cur"
    then have "fst ` set (tl (b_pairs b)) \<subseteq> set (accounted_query_genes st)"
      using assms(1) w unfolding walk_inv_def by simp
    with s show "fst ` set (tl (b_pairs b)) \<subseteq> set (accounted_query_genes st')"
      by blast
  qed
  from r a b show ?thesis unfolding walk_inv_def by simp
qed

lemma walk_inv_start:
  assumes "walk_inv D cur st" and "g \<notin> set (accounted_query_genes st)"
  shows "walk_inv D cur (verbose cfg (StartWalk g cur r) st)"
proof (cases "is_verbose cfg")
  case False
  then show ?thesis using assms(1) by (simp add: verbose_def)
next
  case True
  have n: "\<forall>m. MatchFound m g cur \<notin> set (stderr_log st)"
    using assms unfolding walk_inv_def by blast
  have "seeds_unmatched (stderr_log st @ [StartWalk g cur r])"
    unfolding seeds_unmatched_snoc using assms(1) n unfolding walk_inv_def run_inv_def by auto
  then show ?thesis using True assms(1)
    unfolding walk_inv_def run_inv_def by (auto simp add: verbose_log)
qed

lemma walk_inv_emit:
  assumes "walk_inv D cur st"
    and "b_scaffold blk = cur"
    and "fst ` set (tl (b_pairs blk)) \<subseteq> set (accounted_query_genes st)"
    and "\<forall>b\<in>set (wayout st). b_scaffold b = cur \<longrightarrow> fst (hd (b_pairs blk)) \<notin> fst ` set (tl (b_pairs b))"
  shows "walk_inv D cur (st\<lparr>basetotal := bt, blocklengths := bl, wayout := wayout st @ [blk],
                           blocknum := bn\<rparr>)"
  using assms by (auto simp add: walk_inv_def run_inv_def anchors_fresh_snoc)

lemma block_messages_chained:
  "chained cur G st (block_messages cfg cur anchor st)"
proof -
  let ?n = "length (syntenylist st)"
  let ?st1 = "verbose cfg (FoundBlock ?n anchor cur) st"
  have c1: "chained cur G st ?st1"
    by (rule chained_verbose) (simp_all add: is_StartWalk_def is_MatchFound_def)
  have c2: "chained cur G ?st1 (write_err (NewLongest (blocknum ?st1) ?n cur) ?st1)"
    by (rule chained_write_err) (simp_all add: is_StartWalk_def is_MatchFound_def)
  from chained_trans[OF c1 c2] c1 show ?thesis
    by (simp add: block_messages_def Let_def)
qed

lemma block_messages_fields [simp]:
  "syntenylist (block_messages cfg cur anchor st) = syntenylist st"
  "wayout (block_messages cfg cur anchor st) = wayout st"
  "accounted_query_genes (block_messages cfg cur anchor st) = accounted_query_genes st"
  "blocklengths (block_messages cfg cur anchor st) = blocklengths st"
  by (simp_all add: block_messages_def Let_def write_err_def)

lemma write_longest_match_inv:
  assumes "walk_inv D cur st"
    and "fst ` set (tl (syntenylist st)) \<subseteq> set (accounted_query_genes st)"
    and "\<forall>b\<in>set (wayout st). b_scaffold b = cur \<longrightarrow>
           fst (hd (syntenylist st)) \<notin> fst ` set (tl (b_pairs b))"
  shows "walk_inv D cur (outcome_state (write_longest_match cfg refdict cur transdict anchor st))"
proof (cases "int (length (syntenylist st)) \<ge> min_block cfg")
  case False
  have "chained cur {} st (verbose cfg (BlockIgnored (length (syntenylist st))) st)"
    by (rule chained_verbose) (simp_all add: is_StartWalk_def is_MatchFound_def)
  from walk_inv_chained[OF assms(1) this] show ?thesis using False
    by (simp add: write_longest_match_def outcome_state_def Let_def)
next
  case True
  define st2 where "st2 = block_messages cfg cur anchor st"
  have i2: "walk_inv D cur st2"
    unfolding st2_def by (rule walk_inv_chained[OF assms(1) block_messages_chained])
  have f: "syntenylist st2 = syntenylist st" "wayout st2 = wayout st"
          "accounted_query_genes st2 = accounted_query_genes st"
    by (simp_all add: st2_def)
  have emit: "\<And>blk bt bl bn. b_scaffold blk = cur \<Longrightarrow> b_pairs blk = syntenylist st \<Longrightarrow>
      walk_inv D cur (st2\<lparr>basetotal := bt, blocklengths := bl, wayout := wayout st2 @ [blk],
                           blocknum := bn\<rparr>)"
    by (rule walk_inv_emit[OF i2]) (use assms(2,3) f in simp_all)
  show ?thesis using True i2 emit
    by (simp add: write_longest_match_def outcome_state_def Let_def st2_def[symmetric] f
             split: option.splits)
qed

lemma walk_inv_cong:
  "stderr_log st' = stderr_log st \<Longrightarrow> wayout st' = wayout st \<Longrightarrow>
   accounted_query_genes st' = accounted_query_genes st \<Longrightarrow>
   walk_inv D cur st' = walk_inv D cur st"
  by (simp add: walk_inv_def run_inv_def)

lemma outcome_state_simps [simp]:
  "outcome_state (Inr st) = st" "outcome_state (Inl (e, st)) = st"
  by (simp_all add: outcome_state_def)

lemma try_hits_inv:
  "walk_inv D cur st \<Longrightarrow>
   walk_inv D cur (outcome_state
     (try_hits cfg blastdict refdict cur transdict orderedtranslist i startingtrans hits st))"
proof (induction hits arbitrary: st)
  case Nil
  then show ?case by simp
next
  case (Cons a hits)
  obtain h s where a: "a = (h, s)" by (cases a)
  define st1 where "st1 = (if h = lastmatch st then st\<lparr>splitgenes := splitgenes st + 1\<rparr> else st)"
  have i1: "walk_inv D cur st1"
    using Cons.prems walk_inv_cong[of st1 st D cur] by (simp add: st1_def)
  show ?case
  proof (cases "startingtrans \<in> set (accounted_query_genes st1)")
    case True
    have "chained cur {} st1 (verbose cfg (AlreadyMatched startingtrans cur) st1)"
      by (rule chained_verbose) (simp_all add: is_StartWalk_def is_MatchFound_def)
    from Cons.IH[OF walk_inv_chained[OF i1 this]] show ?thesis
      using True a by (simp add: st1_def[symmetric] Let_def)
  next
    case fresh: False
    define st2 where "st2 = st1\<lparr>syntenylist := [(startingtrans, h)]\<rparr>"
    have i2: "walk_inv D cur st2"
      using i1 walk_inv_cong[of st2 st1 D cur] by (simp add: st2_def)
    have f2: "startingtrans \<notin> set (accounted_query_genes st2)"
      using fresh by (simp add: st2_def)
    show ?thesis
    proof (cases "int i < int (length orderedtranslist) - 1")
      case False
      have c: "chained cur {} st2 (verbose cfg (TooFew startingtrans cur) st2)"
        by (rule chained_verbose) (simp_all add: is_StartWalk_def is_MatchFound_def)
      have "walk_inv D cur ((verbose cfg (TooFew startingtrans cur) st2)\<lparr>lastmatch := h\<rparr>)"
        using walk_inv_chained[OF i2 c]
          walk_inv_cong[of "(verbose cfg (TooFew startingtrans cur) st2)\<lparr>lastmatch := h\<rparr>"
             "verbose cfg (TooFew startingtrans cur) st2" D cur]
        by simp
      from Cons.IH[OF this] show ?thesis
        using fresh False a by (simp add: st1_def[symmetric] st2_def[symmetric] Let_def)
    next
      case more: True
      define st3 where "st3 = verbose cfg (StartWalk startingtrans cur h) st2"
      have i3: "walk_inv D cur st3"
        unfolding st3_def by (rule walk_inv_start[OF i2 f2])
      show ?thesis
      proof (cases "refdict h")
        case None
        then show ?thesis using fresh more a i3
          by (simp add: st1_def[symmetric] st2_def[symmetric] st3_def[symmetric] Let_def)
      next
        case (Some r)
        define st3' where "st3' = st3\<lparr>refscaffold := rscaffold r, subjectpos := (rstart r, rend r)\<rparr>"
        have i3': "walk_inv D cur st3'"
          using i3 walk_inv_cong[of st3' st3 D cur] by (simp add: st3'_def)
        have s3: "syntenylist st3' = [(startingtrans, h)]"
          by (simp add: st3'_def st3_def st2_def)
        have f3: "startingtrans \<notin> set (accounted_query_genes st3')"
          using f2 by (simp add: st3'_def st3_def)
        define res where "res = walk_genes cfg blastdict refdict cur startingtrans h
                                  (drop (Suc i) orderedtranslist) st3'"
        define st4 where "st4 = outcome_state res"
        have c4: "chained cur (fst ` set (drop (Suc i) orderedtranslist)) st3' st4"
          unfolding st4_def res_def by (rule walk_genes_chained)
        have i4: "walk_inv D cur st4" by (rule walk_inv_chained[OF i3' c4])
        have unf: "try_hits cfg blastdict refdict cur transdict orderedtranslist i startingtrans
                     (a # hits) st =
               (case res of
                  Inl e \<Rightarrow> Inl e
                | Inr st4 \<Rightarrow>
                   (case write_longest_match cfg refdict cur transdict startingtrans st4 of
                      Inl e \<Rightarrow> Inl e
                    | Inr st5 \<Rightarrow>
                        try_hits cfg blastdict refdict cur transdict orderedtranslist i
                          startingtrans hits (st5\<lparr>lastmatch := h\<rparr>)))"
          using fresh more a Some
          by (simp add: st1_def[symmetric] st2_def[symmetric] st3_def[symmetric]
                st3'_def[symmetric] res_def[symmetric] Let_def)
        show ?thesis
        proof (cases res)
          case (Inl x)
          then show ?thesis using i4 unf by (cases x) (simp add: st4_def)
        next
          case (Inr y)
          then have y: "y = st4" by (simp add: st4_def)
          from c4 obtain tail where
            t: "syntenylist st4 = syntenylist st3' @ tail"
               "fst ` set tail \<subseteq> set (accounted_query_genes st4)"
            and w: "wayout st4 = wayout st3'"
            unfolding chained_def by blast
          have p1: "fst ` set (tl (syntenylist st4)) \<subseteq> set (accounted_query_genes st4)"
            using t s3 by simp
          have p2: "\<forall>b\<in>set (wayout st4). b_scaffold b = cur \<longrightarrow>
               fst (hd (syntenylist st4)) \<notin> fst ` set (tl (b_pairs b))"
          proof (intro ballI impI)
            fix b assume b: "b \<in> set (wayout st4)" "b_scaffold b = cur"
            then have "fst ` set (tl (b_pairs b)) \<subseteq> set (accounted_query_genes st3')"
              using i3' w unfolding walk_inv_def by simp
            with f3 show "fst (hd (syntenylist st4)) \<notin> fst ` set (tl (b_pairs b))"
              using t s3 by auto
          qed
          have i5: "walk_inv D cur (outcome_state
                      (write_longest_match cfg refdict cur transdict startingtrans st4))"
            by (rule write_longest_match_inv[OF i4 p1 p2])
          show ?thesis
          proof (cases "write_longest_match cfg refdict cur transdict startingtrans st4")
            case (Inl x)
            then show ?thesis using i5 unf Inr y by (cases x) simp
          next
            case wr: (Inr st5)
            have "walk_inv D cur (st5\<lparr>lastmatch := h\<rparr>)"
              using i5 wr walk_inv_cong[of "st5\<lparr>lastmatch := h\<rparr>" st5 D cur] by simp
            from Cons.IH[OF this] show ?thesis using unf Inr y wr by simp
          qed
        qed
      qed
    qed
  qed
qed

lemma scan_anchors_inv:
  "walk_inv D cur st \<Longrightarrow>
   walk_inv D cur (outcome_state
     (scan_anchors cfg blastdict refdict cur transdict orderedtranslist anchors st))"
proof (induction anchors arbitrary: st)
  case Nil
  then show ?case by simp
next
  case (Cons a anchors)
  obtain i g info where a: "a = (i, g, info)" by (cases a)
  define st1 where "st1 = st\<lparr>walksteps := max_span cfg, querypos := (qstart info, qend info)\<rparr>"
  have i1: "walk_inv D cur st1"
    using Cons.prems walk_inv_cong[of st1 st D cur] by (simp add: st1_def)
  show ?case
  proof (cases "blastdict g")
    case None
    have "chained cur {} st1 (verbose cfg (NoBlast g) st1)"
      by (rule chained_verbose) (simp_all add: is_StartWalk_def is_MatchFound_def)
    from Cons.IH[OF walk_inv_chained[OF i1 this]] show ?thesis
      using None a by (simp add: st1_def[symmetric] Let_def)
  next
    case (Some d)
    have i2: "walk_inv D cur (outcome_state
        (try_hits cfg blastdict refdict cur transdict orderedtranslist i g (sorted_desc snd d) st1))"
      by (rule try_hits_inv[OF i1])
    show ?thesis
    proof (cases "try_hits cfg blastdict refdict cur transdict orderedtranslist i g (sorted_desc snd d) st1")
      case (Inl x)
      then show ?thesis using i2 Some a by (cases x) (simp add: st1_def[symmetric] Let_def)
    next
      case (Inr st2)
      then have "walk_inv D cur st2" using i2 by simp
      from Cons.IH[OF this] show ?thesis using Inr Some a by (simp add: st1_def[symmetric] Let_def)
    qed
  qed
qed

lemma run_inv_cong:
  "stderr_log st' = stderr_log st \<Longrightarrow> wayout st' = wayout st \<Longrightarrow> run_inv D st' = run_inv D st"
  by (simp add: run_inv_def)

lemma run_inv_verbose:
  "run_inv D st \<Longrightarrow> \<not> is_StartWalk e \<Longrightarrow> \<not> is_MatchFound e \<Longrightarrow> run_inv D (verbose cfg e st)"
  by (auto simp add: run_inv_def verbose_log seeds_unmatched_snoc is_StartWalk_def is_MatchFound_def)

lemma walk_inv_fresh:
  assumes "run_inv D st" and "cur \<notin> D"
  shows "walk_inv D cur (st\<lparr>accounted_query_genes := []\<rparr>)"
proof -
  have "run_inv (insert cur D) (st\<lparr>accounted_query_genes := []\<rparr>)"
    using run_inv_mono[OF assms(1), of "insert cur D"] run_inv_cong[of "st\<lparr>accounted_query_genes := []\<rparr>" st]
    by auto
  then show ?thesis using assms unfolding walk_inv_def run_inv_def by auto
qed

lemma walk_scaffolds_inv:
  "run_inv D st \<Longrightarrow> distinct (map fst scaffolds) \<Longrightarrow> fst ` set scaffolds \<inter> D = {} \<Longrightarrow>
   run_inv (D \<union> fst ` set scaffolds) (outcome_state (walk_scaffolds cfg blastdict refdict scaffolds st))"
proof (induction scaffolds arbitrary: st D)
  case Nil
  then show ?case by simp
next
  case (Cons a scaffolds)
  obtain cur transdict where a: "a = (cur, transdict)" by (cases a)
  define otl where "otl = sort_key (\<lambda>x. qstart (snd x)) transdict"
  define st1 where "st1 = verbose cfg (Scanning cur (length otl))
                  (st\<lparr>scaffoldgenecounts := count_incr (length otl) (scaffoldgenecounts st)\<rparr>)"
  have i1: "run_inv D st1"
    unfolding st1_def
    using Cons.prems(1) run_inv_cong[of "st\<lparr>scaffoldgenecounts := count_incr (length otl) (scaffoldgenecounts st)\<rparr>" st D]
    by (intro run_inv_verbose) (simp_all add: is_StartWalk_def is_MatchFound_def)
  have fresh: "cur \<notin> D" using Cons.prems(3) a by auto
  have d': "distinct (map fst scaffolds)" "fst ` set scaffolds \<inter> insert cur D = {}"
    using Cons.prems(2,3) a by auto
  have eq: "D \<union> fst ` set (a # scaffolds) = insert cur D \<union> fst ` set scaffolds"
    using a by auto
  show ?case
  proof (cases "int (length otl) < min_block cfg")
    case True
    have "run_inv (insert cur D) (verbose cfg (SkipScaffold cur (length otl)) st1)"
      by (rule run_inv_mono[OF run_inv_verbose[OF i1]]) (auto simp add: is_StartWalk_def is_MatchFound_def)
    from Cons.IH[OF this d'] show ?thesis
      using True a unfolding eq
      by (simp add: otl_def[symmetric] st1_def[symmetric] Let_def)
  next
    case False
    have i2: "walk_inv D cur (outcome_state (scan_anchors cfg blastdict refdict cur transdict otl
                   (enumerate_list otl) (st1\<lparr>accounted_query_genes := []\<rparr>)))"
      by (rule scan_anchors_inv[OF walk_inv_fresh[OF i1 fresh]])
    show ?thesis
    proof (cases "scan_anchors cfg blastdict refdict cur transdict otl
                   (enumerate_list otl) (st1\<lparr>accounted_query_genes := []\<rparr>)")
      case (Inl x)
      obtain e st2 where x: "x = (e, st2)" by (cases x)
      have "run_inv (insert cur D) st2" using i2 Inl x unfolding walk_inv_def by simp
      then have "run_inv (D \<union> fst ` set (a # scaffolds)) st2"
        unfolding eq by (rule run_inv_mono) auto
      then show ?thesis using False a Inl x
        by (simp add: otl_def[symmetric] st1_def[symmetric] Let_def)
    next
      case (Inr st2)
      have "run_inv (insert cur D) st2" using i2 Inr unfolding walk_inv_def by simp
      from Cons.IH[OF this d'] show ?thesis using False a Inr unfolding eq
        by (simp add: otl_def[symmetric] st1_def[symmetric] Let_def)
    qed
  qed
qed

lemma synteny_walk_inv:
  assumes "distinct (map fst querydict)"
    and "synteny_walk querydict blastdict refdict cfg = Inr st \<or>
         synteny_walk querydict blastdict refdict cfg = Inl (e, st)"
  shows "seeds_unmatched (stderr_log st) \<and> anchors_fresh (wayout st)"
proof -
  let ?res = "walk_scaffolds cfg blastdict refdict (sort_key fst querydict) init_ws"
  have 0: "run_inv {} init_ws"
    by (simp add: run_inv_def init_ws_def seeds_unmatched_def anchors_fresh_def)
  have d: "distinct (map fst (sort_key fst querydict))"
    using assms(1) by (metis distinct_map distinct_sort set_sort)
  have "run_inv ({} \<union> fst ` set (sort_key fst querydict)) (outcome_state ?res)"
    by (rule walk_scaffolds_inv[OF 0 d]) simp
  moreover have "outcome_state ?res = st"
    using assms(2) by (auto simp add: synteny_walk_def split: sum.splits if_splits)
  ultimately show ?thesis unfolding run_inv_def by simp
qed

text \<open>
  Claim C1 (blocks and query genes), as amended. Blocks of one scaffold can share
  query genes. What the list accounted\_query\_genes does give, in every run over a
  query index with distinct scaffold names: the first gene of a block is not one of
  the genes after the first of a block written before it for the same scaffold.
\<close>

theorem later_anchor_not_chained_before:
  assumes "distinct (map fst querydict)"
    and "synteny_walk querydict blastdict refdict cfg = Inr st \<or>
         synteny_walk querydict blastdict refdict cfg = Inl (e, st)"
    and "wayout st = pre @ b2 # post"
    and "b1 \<in> set pre"
    and "b_scaffold b1 = b_scaffold b2"
  shows "fst (hd (b_pairs b2)) \<notin> fst ` set (tl (b_pairs b1))"
  using synteny_walk_inv[OF assms(1,2)] assms(3,4,5) unfolding anchors_fresh_def by blast

text \<open>
  The theorem at a run with two blocks on the scaffold X: the second block starts
  with g1, which is not among g2 and g3.
\<close>

theorem later_anchor_not_chained_before_witness:
  "distinct (map fst three_genes) \<and>
   (\<exists>st. synteny_walk three_genes two_hits_each six_refs (walk_config 3 5) = Inr st \<and>
      wayout st = [x_block 1 ''R'' [(''g1'', ''r1''), (''g2'', ''r2''), (''g3'', ''r3'')]] @
                  x_block 2 ''S'' [(''g1'', ''s1''), (''g2'', ''s2''), (''g3'', ''s3'')] # []) \<and>
   ''g1'' \<notin> fst ` set (tl [(''g1'', ''r1''), (''g2'', ''r2''), (''g3'', ''r3'')])"
proof -
  let ?b1 = "x_block 1 ''R'' [(''g1'', ''r1''), (''g2'', ''r2''), (''g3'', ''r3'')]"
  let ?b2 = "x_block 2 ''S'' [(''g1'', ''s1''), (''g2'', ''s2''), (''g3'', ''s3'')]"
  have d: "distinct (map fst three_genes)" by code_simp
  have "(case synteny_walk three_genes two_hits_each six_refs (walk_config 3 5) of
      Inr st \<Rightarrow> wayout st = [?b1] @ ?b2 # []
    | Inl e \<Rightarrow> False)"
    by code_simp
  then obtain st where
    r: "synteny_walk three_genes two_hits_each six_refs (walk_config 3 5) = Inr st"
    and w: "wayout st = [?b1] @ ?b2 # []"
    by (auto split: sum.splits)
  have m: "?b1 \<in> set [?b1]" by simp
  have s: "b_scaffold ?b1 = b_scaffold ?b2" by (simp add: x_block_def)
  from later_anchor_not_chained_before[OF d disjI1[OF r] w m s] d r w
  show ?thesis by (auto simp add: x_block_def)
qed

text \<open>
  Claim C1 as stated fails on that run: every gene has a hit on R and a weaker hit on
  S. The anchor g1 is never put on accounted\_query\_genes and the walk does not look at
  that list, so the second hit of g1 starts a second walk over g2 and g3. Two blocks
  are written for the scaffold X, and both hold g1, g2 and g3.
\<close>

theorem two_hits_blocks_overlap:
  "(case synteny_walk three_genes two_hits_each six_refs (walk_config 3 5) of
      Inr st \<Rightarrow>
        map b_scaffold (wayout st) = [''X'', ''X''] \<and>
        map b_blocknum (wayout st) = [1, 2] \<and>
        map (\<lambda>b. map fst (b_pairs b)) (wayout st) = [[''g1'', ''g2'', ''g3''], [''g1'', ''g2'', ''g3'']] \<and>
        map (\<lambda>b. map snd (b_pairs b)) (wayout st) = [[''r1'', ''r2'', ''r3''], [''s1'', ''s2'', ''s3'']]
    | Inl e \<Rightarrow> False)"
  by code_simp

subsection \<open>The loop over the hits of an anchor\<close>


lemma write_longest_match_accounted:
  "accounted_query_genes (outcome_state (write_longest_match cfg refdict cur transdict anchor st))
     = accounted_query_genes st"
proof (cases "int (length (syntenylist st)) \<ge> min_block cfg")
  case False
  then show ?thesis by (simp add: write_longest_match_def Let_def)
next
  case True
  define st2 where "st2 = block_messages cfg cur anchor st"
  have a: "accounted_query_genes st2 = accounted_query_genes st" by (simp add: st2_def)
  show ?thesis using True a
    by (simp add: write_longest_match_def Let_def st2_def[symmetric] split: option.splits)
qed

lemma walk_genes_accounted:
  assumes "walk_genes cfg blastdict refdict cur anchor h genes st = Inr st'"
  shows "set (accounted_query_genes st) \<subseteq> set (accounted_query_genes st') \<and>
         set (accounted_query_genes st') \<subseteq> set (accounted_query_genes st) \<union> fst ` set genes \<and>
         fst ` set (drop (length (syntenylist st)) (syntenylist st')) \<subseteq> set (accounted_query_genes st')"
proof -
  have "chained cur (fst ` set genes) st st'"
    using walk_genes_chained[where cur=cur and genes=genes and st=st and cfg=cfg
            and blastdict=blastdict and refdict=refdict and startingtrans=anchor
            and blast_refgene=h] assms
    by simp
  then obtain tail where
    t: "syntenylist st' = syntenylist st @ tail" "fst ` set tail \<subseteq> set (accounted_query_genes st')"
    and s: "set (accounted_query_genes st) \<subseteq> set (accounted_query_genes st')"
           "set (accounted_query_genes st') \<subseteq> set (accounted_query_genes st) \<union> fst ` set genes"
    unfolding chained_def by blast
  from t s show ?thesis by simp
qed

lemma try_hits_unfold:
  assumes "startingtrans \<notin> set (accounted_query_genes st)"
    and "int i < int (length orderedtranslist) - 1"
  shows "try_hits cfg blastdict refdict cur transdict orderedtranslist i startingtrans
           ((h, s) # hits) st =
         (case chain_attempt cfg blastdict refdict cur transdict orderedtranslist i startingtrans h st of
            Inl e \<Rightarrow> Inl e
          | Inr st' \<Rightarrow>
              try_hits cfg blastdict refdict cur transdict orderedtranslist i startingtrans hits st')"
  using assms by (simp add: chain_attempt_def Let_def split: option.splits sum.splits)

lemma chain_attempt_accounted:
  assumes "chain_attempt cfg blastdict refdict cur transdict orderedtranslist i startingtrans h st
             = Inr st'"
  shows "set (accounted_query_genes st) \<subseteq> set (accounted_query_genes st') \<and>
         set (accounted_query_genes st') \<subseteq>
           set (accounted_query_genes st) \<union> fst ` set (drop (Suc i) orderedtranslist)"
proof -
  define st3 where "st3 = verbose cfg (StartWalk startingtrans cur h)
     ((if h = lastmatch st then st\<lparr>splitgenes := splitgenes st + 1\<rparr> else st)
        \<lparr>syntenylist := [(startingtrans, h)]\<rparr>)"
  have a3: "accounted_query_genes st3 = accounted_query_genes st" by (simp add: st3_def)
  from assms obtain r where r: "refdict h = Some r"
    by (cases "refdict h") (simp_all add: chain_attempt_def Let_def)
  define st3' where "st3' = st3\<lparr>refscaffold := rscaffold r, subjectpos := (rstart r, rend r)\<rparr>"
  from assms r obtain st4 st5 where
    4: "walk_genes cfg blastdict refdict cur startingtrans h (drop (Suc i) orderedtranslist) st3'
          = Inr st4"
    and 5: "write_longest_match cfg refdict cur transdict startingtrans st4 = Inr st5"
    and 6: "st' = st5\<lparr>lastmatch := h\<rparr>"
    by (auto simp add: chain_attempt_def Let_def st3_def[symmetric] st3'_def[symmetric]
             split: sum.splits)
  have a5: "accounted_query_genes st5 = accounted_query_genes st4"
    using write_longest_match_accounted[of cfg refdict cur transdict startingtrans st4] 5 by simp
  from walk_genes_accounted[OF 4] a5 6 a3 show ?thesis by (simp add: st3'_def)
qed

lemma try_hits_attempts:
  assumes "startingtrans \<notin> fst ` set (drop (Suc i) orderedtranslist)"
    and "int i < int (length orderedtranslist) - 1"
  shows "startingtrans \<notin> set (accounted_query_genes st) \<Longrightarrow>
     try_hits cfg blastdict refdict cur transdict orderedtranslist i startingtrans hits st =
     attempt_each cfg blastdict refdict cur transdict orderedtranslist i startingtrans hits st"
proof (induction hits arbitrary: st)
  case Nil
  show ?case by simp
next
  case (Cons a hits)
  obtain h s where a: "a = (h, s)" by (cases a)
  have u: "try_hits cfg blastdict refdict cur transdict orderedtranslist i startingtrans
             ((h, s) # hits) st =
           (case chain_attempt cfg blastdict refdict cur transdict orderedtranslist i startingtrans h st of
              Inl e \<Rightarrow> Inl e
            | Inr st' \<Rightarrow>
                try_hits cfg blastdict refdict cur transdict orderedtranslist i startingtrans hits st')"
    by (rule try_hits_unfold[OF Cons.prems assms(2)])
  show ?case
  proof (cases "chain_attempt cfg blastdict refdict cur transdict orderedtranslist i startingtrans h st")
    case (Inl e)
    show ?thesis unfolding a u attempt_each.simps Inl by simp
  next
    case (Inr st')
    from chain_attempt_accounted[OF Inr] Cons.prems assms(1)
    have "startingtrans \<notin> set (accounted_query_genes st')" by blast
    from Cons.IH[OF this] show ?thesis unfolding a u attempt_each.simps Inr by simp
  qed
qed

lemma sorted_desc_descending: "sorted (rev (map f (sorted_desc f xs)))"
  by (simp add: sorted_desc_def rev_map[symmetric])

text \<open>
  Claim C3 (the hits of an anchor), as amended. The loop of line 221 has no break. For
  an anchor that is not on accounted\_query\_genes and is not the last gene of its
  scaffold, the loop over its hits is one chain attempt for each hit, in descending
  score order: each attempt seeds the chain with the pair of the anchor and that hit,
  walks the genes after the anchor and ends with the chain written as a block or
  discarded, and the next hit is tried from the state the attempt before it ended in.
  The test of line 226 never turns a later hit of the anchor away, because a walk
  puts only genes after the anchor on accounted\_query\_genes; the anchor's name does
  not occur among them (the names of one scaffold are the keys of a dict). This holds
  with and without the messages, and for runs that end in an exception.
\<close>

theorem every_hit_seeds_a_chain:
  assumes "startingtrans \<notin> set (accounted_query_genes st)"
    and "startingtrans \<notin> fst ` set (drop (Suc i) orderedtranslist)"
    and "int i < int (length orderedtranslist) - 1"
  shows "try_hits cfg blastdict refdict scaffold transdict orderedtranslist i startingtrans
           (sorted_desc snd blastrefmatch_dict) st =
         attempt_each cfg blastdict refdict scaffold transdict orderedtranslist i startingtrans
           (sorted_desc snd blastrefmatch_dict) st \<and>
         sorted (rev (map snd (sorted_desc snd blastrefmatch_dict)))"
  using try_hits_attempts[OF assms(2,3,1)] sorted_desc_descending by blast

text \<open>
  The theorem at the anchor g1 with the two hits r1 (score 90) and s1 (score 50), given
  in the other order by the dict, in a run without messages: the attempt against r1
  ends with the chain of one pair discarded, and the attempt against s1 that follows
  it writes the block of three pairs.
\<close>

theorem every_hit_seeds_a_chain_witness:
  "''g1'' \<notin> set (accounted_query_genes at_first_anchor) \<and>
   ''g1'' \<notin> fst ` set (drop (Suc 0) (snd (hd three_genes))) \<and>
   int 0 < int (length (snd (hd three_genes))) - 1 \<and>
   try_hits (quiet_config 3 5) second_hit_only six_refs ''X'' (snd (hd three_genes))
     (snd (hd three_genes)) 0 ''g1'' (sorted_desc snd [(''s1'', 50), (''r1'', 90::int)])
     at_first_anchor =
   attempt_each (quiet_config 3 5) second_hit_only six_refs ''X'' (snd (hd three_genes))
     (snd (hd three_genes)) 0 ''g1'' (sorted_desc snd [(''s1'', 50), (''r1'', 90::int)])
     at_first_anchor \<and>
   sorted_desc snd [(''s1'', 50), (''r1'', 90::int)] = [(''r1'', 90), (''s1'', 50)] \<and>
   (\<exists>st1 st2.
      chain_attempt (quiet_config 3 5) second_hit_only six_refs ''X'' (snd (hd three_genes))
        (snd (hd three_genes)) 0 ''g1'' ''r1'' at_first_anchor = Inr st1 \<and>
      syntenylist st1 = [(''g1'', ''r1'')] \<and> wayout st1 = [] \<and>
      chain_attempt (quiet_config 3 5) second_hit_only six_refs ''X'' (snd (hd three_genes))
        (snd (hd three_genes)) 0 ''g1'' ''s1'' st1 = Inr st2 \<and>
      map b_pairs (wayout st2) = [[(''g1'', ''s1''), (''g2'', ''s2''), (''g3'', ''s3'')]])"
proof -
  have h1: "''g1'' \<notin> set (accounted_query_genes at_first_anchor)" by code_simp
  have h2: "''g1'' \<notin> fst ` set (drop (Suc 0) (snd (hd three_genes)))" by code_simp
  have h3: "int 0 < int (length (snd (hd three_genes))) - 1" by code_simp
  have s: "sorted_desc snd [(''s1'', 50), (''r1'', 90::int)] = [(''r1'', 90), (''s1'', 50)]"
    by code_simp
  have "(case chain_attempt (quiet_config 3 5) second_hit_only six_refs ''X'' (snd (hd three_genes))
            (snd (hd three_genes)) 0 ''g1'' ''r1'' at_first_anchor of
           Inl e \<Rightarrow> False
         | Inr st1 \<Rightarrow>
             syntenylist st1 = [(''g1'', ''r1'')] \<and> wayout st1 = [] \<and>
             (case chain_attempt (quiet_config 3 5) second_hit_only six_refs ''X''
                     (snd (hd three_genes)) (snd (hd three_genes)) 0 ''g1'' ''s1'' st1 of
                Inl e \<Rightarrow> False
              | Inr st2 \<Rightarrow>
                  map b_pairs (wayout st2) = [[(''g1'', ''s1''), (''g2'', ''s2''), (''g3'', ''s3'')]]))"
    by code_simp
  then have e: "\<exists>st1 st2.
      chain_attempt (quiet_config 3 5) second_hit_only six_refs ''X'' (snd (hd three_genes))
        (snd (hd three_genes)) 0 ''g1'' ''r1'' at_first_anchor = Inr st1 \<and>
      syntenylist st1 = [(''g1'', ''r1'')] \<and> wayout st1 = [] \<and>
      chain_attempt (quiet_config 3 5) second_hit_only six_refs ''X'' (snd (hd three_genes))
        (snd (hd three_genes)) 0 ''g1'' ''s1'' st1 = Inr st2 \<and>
      map b_pairs (wayout st2) = [[(''g1'', ''s1''), (''g2'', ''s2''), (''g3'', ''s3'')]]"
    by (auto split: sum.splits)
  from every_hit_seeds_a_chain[where startingtrans="''g1''" and st=at_first_anchor and i=0
         and orderedtranslist="snd (hd three_genes)" and cfg="quiet_config 3 5"
         and blastdict=second_hit_only and refdict=six_refs and scaffold="''X''"
         and transdict="snd (hd three_genes)"
         and blastrefmatch_dict="[(''s1'', 50), (''r1'', 90::int)]", OF h1 h2 h3]
    h1 h2 h3 s e
  show ?thesis by blast
qed

text \<open>
  Claim C3 as stated fails on the whole run for that anchor: the chain from g1 against
  r1 is discarded with one pair, and then the second hit s1 of the same anchor starts
  a second walk, which gives the block of the run.
\<close>

theorem second_hit_tried_after_discard:
  "(case synteny_walk three_genes second_hit_only six_refs (walk_config 3 5) of
      Inr st \<Rightarrow>
        stderr_log st =
          [Scanning ''X'' 3, StartWalk ''g1'' ''X'' ''r1'', WrongContig ''g2'' ''s2'' ''S'',
           WrongContig ''g3'' ''s3'' ''S'', BlockIgnored 1, StartWalk ''g1'' ''X'' ''s1'',
           MatchFound ''s2'' ''g2'' ''X'', MatchFound ''s3'' ''g3'' ''X'',
           FoundBlock 3 ''g1'' ''X'', NewLongest 1 3 ''X'', AlreadyMatched ''g2'' ''X'',
           AlreadyMatched ''g3'' ''X''] \<and>
        map b_pairs (wayout st) = [[(''g1'', ''s1''), (''g2'', ''s2''), (''g3'', ''s3'')]]
    | Inl e \<Rightarrow> False)"
  by code_simp

subsection \<open>The genes on accounted\_query\_genes\<close>








section \<open>Properties of parse\_tabular\_blast\<close>

lemma map_of_dict_set: "map_of (dict_set k v d) = (map_of d)(k \<mapsto> v)"
  by (induction d) (auto simp add: fun_eq_iff)













section \<open>Properties of parse\_gtf\<close>

lemma map_fst_dict_set:
  "map fst (dict_set k v d) = (if k \<in> fst ` set d then map fst d else map fst d @ [k])"
  by (induction k v d rule: dict_set.induct) (auto simp add: image_iff)

lemma distinct_dict_set: "distinct (map fst d) \<Longrightarrow> distinct (map fst (dict_set k v d))"
  by (induction k v d rule: dict_set.induct)
     (auto simp add: map_fst_dict_set image_iff split: if_splits)

lemma set_dict_set: "set (dict_set k v d) \<subseteq> insert (k, v) (set d)"
  by (induction k v d rule: dict_set.induct) (auto split: if_splits)

lemma dict_get_in: "x \<in> set (dict_get d k []) \<Longrightarrow> \<exists>v. (k, v) \<in> set d \<and> x \<in> set v"
  by (cases "map_of d k") (auto simp add: dict_get_def dest: map_of_SomeD)

lemma index_entries_store:
  "set (index_entries (store_gene idx sc g s e strand)) \<subseteq>
     insert (sc, g, s, e, strand) (set (index_entries idx))"
proof (cases idx)
  case (RefIndex d)
  then show ?thesis using set_dict_set[of g "\<lparr>rscaffold = sc, rstart = s, rend = e, rstrand = strand\<rparr>" d]
    by auto
next
  case (QueryIndex d)
  let ?v = "\<lparr>qstart = s, qend = e, qstrand = strand\<rparr>"
  let ?inner = "dict_set g ?v (dict_get d sc [])"
  show ?thesis
  proof
    fix x assume "x \<in> set (index_entries (store_gene idx sc g s e strand))"
    then obtain sc' genes g' q where
      m: "(sc', genes) \<in> set (dict_set sc ?inner d)" "(g', q) \<in> set genes"
      and x: "x = (sc', g', qstart q, qend q, qstrand q)"
      using QueryIndex by auto
    from m(1) set_dict_set[of sc ?inner d] have "(sc', genes) = (sc, ?inner) \<or> (sc', genes) \<in> set d"
      by auto
    then show "x \<in> insert (sc, g, s, e, strand) (set (index_entries idx))"
    proof
      assume "(sc', genes) \<in> set d"
      with m(2) x QueryIndex show ?thesis by force
    next
      assume eq: "(sc', genes) = (sc, ?inner)"
      with m(2) set_dict_set[of g ?v "dict_get d sc []"]
      have "(g', q) = (g, ?v) \<or> (g', q) \<in> set (dict_get d sc [])" by auto
      then show ?thesis
      proof
        assume "(g', q) = (g, ?v)"
        with eq x show ?thesis by simp
      next
        assume "(g', q) \<in> set (dict_get d sc [])"
        from dict_get_in[OF this] obtain old where "(sc, old) \<in> set d" "(g', q) \<in> set old" by blast
        with eq x QueryIndex show ?thesis by force
      qed
    qed
  qed
qed

lemma exon_lines_snoc:
  "exon_lines E (ps @ [l]) g =
     exon_lines E ps g @
       (if l_scaffold l \<notin> set E \<and> l_feature l = ''exon'' \<and> exon_geneid l = Some g then [l] else [])"
  by (simp add: exon_lines_def)

lemma gtf_step_exons_read:
  assumes "exons_read E ps st"
    and "gtf_step True E delimiter isref l st = Inr st'"
    and "l_scaffold l \<in> set E \<or>
         (l_feature l \<noteq> ''gene'' \<and> l_feature l \<noteq> ''transcript'' \<and> l_feature l \<noteq> ''mRNA'')"
  shows "exons_read E (ps @ [l]) st'"
proof (cases "l_scaffold l \<notin> set E \<and> l_feature l = ''exon''")
  case False
  then have "st' = st" using assms(2,3) by (auto simp add: gtf_step_def split: if_splits)
  moreover have "\<And>g. exon_lines E (ps @ [l]) g = exon_lines E ps g"
    using False by (auto simp add: exon_lines_snoc)
  ultimately show ?thesis using assms(1) by (simp add: exons_read_def)
next
  case True
  then obtain geneid where gid: "exon_geneid l = Some geneid"
    using assms(2) by (cases "exon_geneid l") (auto simp add: gtf_step_def)
  have st': "st' = st\<lparr>nametoscaffold := dict_set geneid (l_scaffold l) (nametoscaffold st),
                     nametostrand := dict_set geneid (l_strand l) (nametostrand st),
                     exonboundaries :=
                       dict_set geneid (dict_get (exonboundaries st) geneid [] @ [(l_start l, l_end l)])
                         (exonboundaries st)\<rparr>"
    using assms(2) True gid by (auto simp add: gtf_step_def)
  have snoc: "\<And>g. exon_lines E (ps @ [l]) g = exon_lines E ps g @ (if g = geneid then [l] else [])"
    using True gid by (auto simp add: exon_lines_snoc)
  have old: "dict_get (exonboundaries st) geneid [] =
               map (\<lambda>l. (l_start l, l_end l)) (exon_lines E ps geneid)"
    using assms(1) by (simp add: exons_read_def dict_get_def)
  show ?thesis
    unfolding exons_read_def st'
    using assms(1) old
    by (simp add: exons_read_def snoc map_of_dict_set distinct_dict_set)
qed

lemma gtf_loop_exons_read:
  "exons_read E ps st \<Longrightarrow> gtf_loop True E delimiter isref ls st = Inr st' \<Longrightarrow>
   \<forall>l\<in>set ls. l_scaffold l \<in> set E \<or>
         (l_feature l \<noteq> ''gene'' \<and> l_feature l \<noteq> ''transcript'' \<and> l_feature l \<noteq> ''mRNA'') \<Longrightarrow>
   exons_read E (ps @ ls) st'"
proof (induction ls arbitrary: ps st)
  case Nil
  then show ?case by simp
next
  case (Cons l ls)
  from Cons.prems(2) obtain st1 where
    1: "gtf_step True E delimiter isref l st = Inr st1"
    and 2: "gtf_loop True E delimiter isref ls st1 = Inr st'"
    by (auto split: sum.splits)
  have "exons_read E (ps @ [l]) st1"
    by (rule gtf_step_exons_read[OF Cons.prems(1) 1]) (use Cons.prems(3) in simp)
  from Cons.IH[OF this 2] Cons.prems(3) show ?case by simp
qed

lemma genes_from_exons_entries:
  "genes_from_exons n2scaf n2strand eb idx = Inr idx' \<Longrightarrow>
   x \<in> set (index_entries idx') \<Longrightarrow>
   x \<in> set (index_entries idx) \<or>
   (\<exists>g exons sc strand. (g, exons) \<in> set eb \<and> exons \<noteq> [] \<and> map_of n2scaf g = Some sc \<and>
       map_of n2strand g = Some strand \<and>
       x = (sc, g, Min (set (map fst exons)), Max (set (map snd exons)), strand))"
proof (induction eb arbitrary: idx)
  case Nil
  then show ?case by simp
next
  case (Cons a eb)
  obtain g exons where a: "a = (g, exons)" by (cases a)
  from Cons.prems(1) a obtain sc strand where
    k: "map_of n2scaf g = Some sc" "map_of n2strand g = Some strand" "exons \<noteq> []"
    and r: "genes_from_exons n2scaf n2strand eb
              (store_gene idx sc g (Min (set (map fst exons))) (Max (set (map snd exons))) strand)
            = Inr idx'"
    by (auto split: option.splits if_splits)
  from Cons.IH[OF r Cons.prems(2)]
  show ?case
  proof
    assume "x \<in> set (index_entries
              (store_gene idx sc g (Min (set (map fst exons))) (Max (set (map snd exons))) strand))"
    with index_entries_store[of idx sc g "Min (set (map fst exons))" "Max (set (map snd exons))" strand]
    have "x = (sc, g, Min (set (map fst exons)), Max (set (map snd exons)), strand) \<or>
          x \<in> set (index_entries idx)" by auto
    then show ?thesis using k a by auto
  next
    assume "\<exists>g exons sc strand. (g, exons) \<in> set eb \<and> exons \<noteq> [] \<and> map_of n2scaf g = Some sc \<and>
       map_of n2strand g = Some strand \<and>
       x = (sc, g, Min (set (map fst exons)), Max (set (map snd exons)), strand)"
    then show ?thesis by auto
  qed
qed

lemma index_entries_empty: "index_len idx = 0 \<Longrightarrow> index_entries idx = []"
  by (cases idx) auto

text \<open>
  Claim C8 (genes from exons). Let the file have no gene, transcript or mRNA record
  outside the excluded scaffolds, so that nothing is stored while the lines are read,
  and let parse\_gtf return an index with exonstogenes set. Then every entry of the
  index, for the query (scaffold, then gene) as for the reference (gene), is made from
  the exon records read for its gene id: there is at least one, the start is the
  smallest exon start and the end the largest exon end over all of them, and the
  strand (and the scaffold) is that of the last of them in file order.
\<close>

theorem genes_from_exon_extents:
  assumes "\<forall>l\<in>set gtffile. l_scaffold l \<in> set excludedict \<or>
             (l_feature l \<noteq> ''gene'' \<and> l_feature l \<noteq> ''transcript'' \<and> l_feature l \<noteq> ''mRNA'')"
    and "parse_gtf gtffile True excludedict delimiter isref = Inr idx"
    and "(scaffold, gene, s, e, strand) \<in> set (index_entries idx)"
  shows "exon_lines excludedict gtffile gene \<noteq> [] \<and>
         s = Min (l_start ` set (exon_lines excludedict gtffile gene)) \<and>
         e = Max (l_end ` set (exon_lines excludedict gtffile gene)) \<and>
         strand = l_strand (last (exon_lines excludedict gtffile gene)) \<and>
         scaffold = l_scaffold (last (exon_lines excludedict gtffile gene))"
proof -
  let ?st0 = "\<lparr>genesbyscaffold = (if isref then RefIndex [] else QueryIndex []),
              nametoscaffold = [], nametostrand = [], exonboundaries = []\<rparr>"
  have 0: "exons_read excludedict [] ?st0"
    by (simp add: exons_read_def exon_lines_def)
  from assms(2) obtain st where
    l: "gtf_loop True excludedict delimiter isref gtffile ?st0 = Inr st"
    by (auto simp add: parse_gtf_def split: sum.splits)
  from gtf_loop_exons_read[OF 0 l assms(1)] have i: "exons_read excludedict gtffile st" by simp
  then have z: "index_len (genesbyscaffold st) = 0" by (simp add: exons_read_def)
  have g: "genes_from_exons (nametoscaffold st) (nametostrand st) (exonboundaries st)
             (genesbyscaffold st) = Inr idx"
    using assms(2) l z by (simp add: parse_gtf_def)
  from genes_from_exons_entries[OF g assms(3)] index_entries_empty[OF z]
  obtain exons where
    m: "(gene, exons) \<in> set (exonboundaries st)" "exons \<noteq> []"
       "map_of (nametoscaffold st) gene = Some scaffold"
       "map_of (nametostrand st) gene = Some strand"
       "s = Min (set (map fst exons))" "e = Max (set (map snd exons))"
    by auto
  have d: "distinct (map fst (exonboundaries st))" using i by (simp add: exons_read_def)
  have mo: "map_of (exonboundaries st) gene = Some exons"
    using m(1) d by simp
  let ?ex = "exon_lines excludedict gtffile gene"
  have ne: "?ex \<noteq> []" using i mo by (auto simp add: exons_read_def split: if_splits)
  have ex: "exons = map (\<lambda>l. (l_start l, l_end l)) ?ex"
    using i mo ne by (simp add: exons_read_def)
  have "s = Min (l_start ` set ?ex)" "e = Max (l_end ` set ?ex)"
    using m(5,6) ex by (simp_all add: image_image)
  moreover have "strand = l_strand (last ?ex)" "scaffold = l_scaffold (last ?ex)"
    using i m(3,4) ne by (simp_all add: exons_read_def)
  ultimately show ?thesis using ne by simp
qed

text \<open>
  The theorem at the gene g1 of the file above: its exons are 300..400 on + and then
  100..200 on -, an exon of the same id on the excluded scaffold is not read; the gene
  is 100..400 on the strand of the last exon, -.
\<close>

theorem genes_from_exon_extents_witness:
  "parse_gtf exon_file True [''bad''] None False =
     Inr (QueryIndex [(''X'', [(''g1'', \<lparr>qstart = 100, qend = 400, qstrand = ''-''\<rparr>),
                               (''g2'', \<lparr>qstart = 500, qend = 600, qstrand = ''+''\<rparr>)])]) \<and>
   exon_lines [''bad''] exon_file ''g1'' =
     [exon_line ''X'' ''g1'' 300 400 ''+'', exon_line ''X'' ''g1'' 100 200 ''-''] \<and>
   100 = Min (l_start ` set (exon_lines [''bad''] exon_file ''g1'')) \<and>
   400 = Max (l_end ` set (exon_lines [''bad''] exon_file ''g1'')) \<and>
   ''-'' = l_strand (last (exon_lines [''bad''] exon_file ''g1'')) \<and>
   ''X'' = l_scaffold (last (exon_lines [''bad''] exon_file ''g1''))"
proof -
  let ?idx = "QueryIndex [(''X'', [(''g1'', \<lparr>qstart = 100, qend = 400, qstrand = ''-''\<rparr>),
                               (''g2'', \<lparr>qstart = 500, qend = 600, qstrand = ''+''\<rparr>)])]"
  have h1: "\<forall>l\<in>set exon_file. l_scaffold l \<in> set [''bad''] \<or>
       (l_feature l \<noteq> ''gene'' \<and> l_feature l \<noteq> ''transcript'' \<and> l_feature l \<noteq> ''mRNA'')"
    by code_simp
  have h2: "parse_gtf exon_file True [''bad''] None False = Inr ?idx" by code_simp
  have h3: "(''X'', ''g1'', 100, 400, ''-'') \<in> set (index_entries ?idx)" by simp
  have x: "exon_lines [''bad''] exon_file ''g1'' =
     [exon_line ''X'' ''g1'' 300 400 ''+'', exon_line ''X'' ''g1'' 100 200 ''-'']" by code_simp
  from genes_from_exon_extents[OF h1 h2 h3] h2 x show ?thesis by blast
qed

section \<open>Properties of main\<close>

text \<open>
  Claim C9 (the switch of query and subject), as amended. With the switch enabled the
  first statement of the branch calls parse\_gtf with three arguments; the call raises
  TypeError for the missing parameter delimiter before the name querydict is bound to
  anything. The other two dictionaries are not built and synteny\_walk is not called,
  so nothing is written to wayout, whatever the input files are.
\<close>

theorem switched_run_type_error:
  "a_switch_query a \<Longrightarrow> main shuffle a = Inl (TypeError, [])"
  by (simp add: main_def parse_gtf_call_def Let_def)

text \<open>The theorem at a command line with three genes in each annotation.\<close>

theorem switched_run_type_error_witness:
  "a_switch_query switched_args \<and> main id switched_args = Inl (TypeError, [])"
proof -
  have h: "a_switch_query switched_args" by code_simp
  from switched_run_type_error[OF h, of id] h show ?thesis by simp
qed

text \<open>
  Claim C9 as stated fails: on that command line the call with three arguments raises
  TypeError, and the run does not end with the AttributeError of a pair that has no
  method items. The same command line without the switch writes one block.
\<close>

theorem switched_run_no_attribute_error:
  "parse_gtf_call (a_db_gtf switched_args) (a_no_genes switched_args) [] Omitted False
     = Inl TypeError \<and>
   main id switched_args \<noteq> Inl (AttributeError, []) \<and>
   (case main id plain_args of
      Inr w \<Rightarrow> map b_pairs w = [[(''g1'', ''r1''), (''g2'', ''r2''), (''g3'', ''r3'')]]
    | Inl e \<Rightarrow> False)"
  by code_simp

end
